theory Spec2Isabelle
  imports Complex_Main
begin

section \<open>Python and numpy primitives used by the solvers\<close>

text \<open>
  The solvers of liionpack (\<^verbatim>\<open>src/liionpack/solvers.py\<close>) work on numpy arrays of
  floats. Arrays are modelled as lists (a matrix is a list of rows) and floats as
  real numbers. The values of the cells and of the circuit (voltages, currents,
  resistances) are idealised: their arithmetic is the exact one, and infinities and
  NaN are outside the model. The clock of \<^verbatim>\<open>solve\<close> decides which rows are written,
  so it is computed as the code computes it, in binary64 (\<open>fl64\<close> below).
  Exceptions are values of \<open>py_error\<close>; a fallible operation returns a sum with
  the error on the left.
  An assignment whose right-hand side has another shape than the target (where
  numpy would broadcast or raise) is a \<open>ValueError\<close> in the model.
\<close>

datatype py_error = IndexError | ValueError | KeyError | AttributeError | SolverError

type_synonym matrix = "real list list"

definition get :: "'a list \<Rightarrow> nat \<Rightarrow> py_error + 'a" where
  \<comment> \<open>\<^verbatim>\<open>xs[i]\<close> for a non-negative index\<close>
  "get xs i = (if i < length xs then Inr (xs ! i) else Inl IndexError)"

definition take_indices :: "'a list \<Rightarrow> nat list \<Rightarrow> py_error + 'a list" where
  \<comment> \<open>\<^verbatim>\<open>xs[idx]\<close> for an index array\<close>
  "take_indices xs idx =
     (if list_all (\<lambda>i. i < length xs) idx then Inr (map ((!) xs) idx) else Inl IndexError)"

definition slice :: "'a list \<Rightarrow> nat \<Rightarrow> nat \<Rightarrow> 'a list" where
  \<comment> \<open>\<^verbatim>\<open>xs[st:en]\<close>\<close>
  "slice xs st en = take (en - st) (drop st xs)"

definition arange :: "nat \<Rightarrow> nat list" where
  "arange n = [0..<n]"

definition np_any :: "bool list list \<Rightarrow> bool" where
  "np_any M = list_ex (list_ex (\<lambda>b. b)) M"

definition np_zeros2 :: "nat \<Rightarrow> nat \<Rightarrow> matrix" where
  "np_zeros2 r c = replicate r (replicate c 0)"

definition np_zeros3 :: "nat \<Rightarrow> nat \<Rightarrow> nat \<Rightarrow> matrix list" where
  "np_zeros3 v r c = replicate v (np_zeros2 r c)"

subsection \<open>Rounding to binary64\<close>

text \<open>
  A Python float is an IEEE 754 binary64 number, and the sum and the product of two
  floats are the exact results rounded to the nearest binary64 number, ties to the
  even significand. \<open>fl64 x\<close> is that rounding of a real \<open>x\<close>: with
  \<open>2 ^ e \<le> \<bar>x\<bar> < 2 ^ (e + 1)\<close> the neighbours of \<open>x\<close> are the multiples of
  \<open>2 ^ (e - 52)\<close>. Overflow and subnormal numbers are outside the model (the
  exponent is unbounded). \<open>bit_length\<close> is \<^verbatim>\<open>int.bit_length\<close>, and
  \<open>ilog2 x\<close> is the integer part of the binary logarithm of a positive \<open>x\<close>.
\<close>

fun bit_length :: "nat \<Rightarrow> nat" where
  "bit_length n = (if n = 0 then 0 else Suc (bit_length (n div 2)))"

declare bit_length.simps [simp del]

definition ilog2 :: "real \<Rightarrow> int" where
  "ilog2 x = (if 1 \<le> x then int (bit_length (nat \<lfloor>x\<rfloor>)) - 1
              else - int (bit_length (nat \<lceil>1 / x\<rceil> - 1)))"

definition pow2 :: "int \<Rightarrow> real" where
  "pow2 e = (if 0 \<le> e then 2 ^ nat e else 1 / 2 ^ nat (- e))"

definition round_half_even :: "real \<Rightarrow> int" where
  "round_half_even x =
     (let f = \<lfloor>x\<rfloor>; r = x - of_int f
      in if r < 1 / 2 then f else if 1 / 2 < r then f + 1 else if even f then f else f + 1)"

definition fl64 :: "real \<Rightarrow> real" where
  "fl64 x = (if x = 0 then 0
             else let e = ilog2 \<bar>x\<bar> - 52
                  in of_int (round_half_even (x / pow2 e)) * pow2 e)"

subsection \<open>numpy.array\_split\<close>

text \<open>
  \<^verbatim>\<open>np.array_split(ary, Nsections)\<close> with an integer number of sections, as numpy
  defines it: \<^verbatim>\<open>Neach_section, extras = divmod(Ntotal, Nsections)\<close>,
  \<^verbatim>\<open>section_sizes = [0] + extras * [Neach_section + 1] + (Nsections - extras) * [Neach_section]\<close>,
  \<^verbatim>\<open>div_points = cumsum(section_sizes)\<close>, and section \<open>i\<close> is
  \<^verbatim>\<open>ary[div_points[i]:div_points[i + 1]]\<close>. A number of sections that is not positive
  raises \<open>ValueError\<close>. The number of workers is a natural number in the model.
\<close>

fun cumsum_from :: "nat \<Rightarrow> nat list \<Rightarrow> nat list" where
  "cumsum_from acc [] = []"
| "cumsum_from acc (x # xs) = (acc + x) # cumsum_from (acc + x) xs"

definition cumsum :: "nat list \<Rightarrow> nat list" where
  "cumsum xs = cumsum_from 0 xs"

definition section_sizes_of :: "nat \<Rightarrow> nat \<Rightarrow> nat list" where
  "section_sizes_of Ntotal Nsections =
     [0] @ replicate (Ntotal mod Nsections) (Ntotal div Nsections + 1)
         @ replicate (Nsections - Ntotal mod Nsections) (Ntotal div Nsections)"

definition array_split :: "'a list \<Rightarrow> nat \<Rightarrow> py_error + 'a list list" where
  "array_split ary Nsections =
    (if Nsections = 0 then Inl ValueError
     else
       let div_points = cumsum (section_sizes_of (length ary) Nsections)
       in Inr (map (\<lambda>i. slice ary (div_points ! i) (div_points ! Suc i)) [0..<Nsections]))"

section \<open>The cell-model worker: \<^verbatim>\<open>generic_actor\<close>\<close>

text \<open>
  The electrochemical model, its integrator and the solutions of the last step are
  opaque: the type variable \<open>'sol\<close> stands for all of them (\<^verbatim>\<open>simulation\<close>,
  \<^verbatim>\<open>integrator\<close>, \<^verbatim>\<open>variables_fn\<close>, \<^verbatim>\<open>events_fn\<close>, \<^verbatim>\<open>step_solutions\<close>), and
  \<open>None\<close> there is a worker whose \<^verbatim>\<open>setup\<close> has not run. \<^verbatim>\<open>var_eval\<close> and
  \<^verbatim>\<open>events_eval\<close> are written by every \<^verbatim>\<open>step\<close> before they are read.
\<close>

record 'sol generic_actor =
  step_solutions :: "'sol option"
  var_eval :: matrix
  events_eval :: matrix
  event_names :: "string list"
  last_events :: "matrix option"
  event_change :: "bool list list option"

definition check_events :: "'sol generic_actor \<Rightarrow> 'sol generic_actor \<times> bool" where
  "check_events self =
    (case last_events self of
       Some previous \<Rightarrow>
         let new_sign = map (map sgn) (events_eval self);
             old_sign = map (map sgn) previous;
             change = map2 (map2 (\<lambda>old new. old * new < 0)) old_sign new_sign;
             self1 = self\<lparr>event_change := Some change\<rparr>;
             self2 = self1\<lparr>last_events := Some (events_eval self1)\<rparr>
         in (self2, np_any change)
     | None \<Rightarrow> (self\<lparr>last_events := Some (events_eval self)\<rparr>, False))"

definition same_shape :: "'a list list \<Rightarrow> 'b list list \<Rightarrow> bool" where
  "same_shape A B = (map length A = map length B)"

section \<open>The resistance derived from the cell outputs\<close>

text \<open>
  Lines 185 to 192 of \<^verbatim>\<open>generic_manager.solve\<close>: the quotient is taken for every
  cell first, then the entries whose applied current is below \<^verbatim>\<open>1e-6\<close> in
  magnitude are overwritten with \<^verbatim>\<open>1e-12\<close>.
\<close>

definition masked_assign :: "real list \<Rightarrow> bool list \<Rightarrow> real \<Rightarrow> real list" where
  \<comment> \<open>\<^verbatim>\<open>a[mask] = c\<close>\<close>
  "masked_assign a msk c = map2 (\<lambda>x b. if b then c else x) a msk"

definition derive_Ri :: "real list \<Rightarrow> real list \<Rightarrow> real list \<Rightarrow> real list" where
  "derive_Ri temp_ocv temp_v i_app =
     (let temp_Ri = map2 (/) (map2 (-) temp_ocv temp_v) i_app;
          current_cutoff = map (\<lambda>i. \<bar>i\<bar> < 1 / 10 ^ 6) i_app
      in masked_assign temp_Ri current_cutoff (1 / 10 ^ 12))"

section \<open>The netlist\<close>

text \<open>
  The netlist is a pandas data frame with the columns \<^verbatim>\<open>desc\<close>, \<^verbatim>\<open>node1\<close>,
  \<^verbatim>\<open>node2\<close> and \<^verbatim>\<open>value\<close>: a list of rows here (the column \<^verbatim>\<open>value\<close> is the
  field \<open>val\<close>).
\<close>

record element =
  desc :: string
  node1 :: nat
  node2 :: nat
  val :: real

type_synonym netlist = "element list"

fun str_find_from :: "nat \<Rightarrow> string \<Rightarrow> string \<Rightarrow> int" where
  "str_find_from i [] sub = (if sub = [] then int i else - 1)"
| "str_find_from i (c # cs) sub =
     (if take (length sub) (c # cs) = sub then int i else str_find_from (Suc i) cs sub)"

definition str_find :: "string \<Rightarrow> string \<Rightarrow> int" where
  \<comment> \<open>\<^verbatim>\<open>s.find(sub)\<close>: the lowest index of \<open>sub\<close> in \<open>s\<close>, or \<open>-1\<close>\<close>
  "str_find s sub = str_find_from 0 s sub"

definition desc_map :: "string \<Rightarrow> netlist \<Rightarrow> bool list" where
  \<comment> \<open>\<^verbatim>\<open>netlist["desc"].str.find(sub) > -1\<close>\<close>
  "desc_map sub nl = map (\<lambda>r. str_find (desc r) sub > - 1) nl"

fun select_rows :: "bool list \<Rightarrow> 'a list \<Rightarrow> 'a list" where
  \<comment> \<open>\<^verbatim>\<open>netlist[mask]\<close>\<close>
  "select_rows (b # bs) (r # rs) = (if b then r # select_rows bs rs else select_rows bs rs)"
| "select_rows _ _ = []"

fun assign_rows :: "bool list \<Rightarrow> real list \<Rightarrow> netlist \<Rightarrow> netlist" where
  "assign_rows (True # bs) (v # vs) (r # rs) = r\<lparr>val := v\<rparr> # assign_rows bs vs rs"
| "assign_rows (False # bs) vs (r # rs) = r # assign_rows bs vs rs"
| "assign_rows _ _ rs = rs"

definition loc_set_values :: "bool list \<Rightarrow> real list \<Rightarrow> netlist \<Rightarrow> py_error + netlist" where
  \<comment> \<open>\<^verbatim>\<open>netlist.loc[mask, ("value")] = vs\<close> for an array \<open>vs\<close>: one entry for each selected row\<close>
  "loc_set_values msk vs nl =
     (if length (filter (\<lambda>b. b) msk) \<noteq> length vs then Inl ValueError
      else Inr (assign_rows msk vs nl))"

fun loc_set_scalar :: "bool list \<Rightarrow> real \<Rightarrow> netlist \<Rightarrow> netlist" where
  \<comment> \<open>\<^verbatim>\<open>netlist.loc[mask, ("value")] = v\<close> for a scalar \<open>v\<close>\<close>
  "loc_set_scalar (b # bs) v (r # rs) = (if b then r\<lparr>val := v\<rparr> else r) # loc_set_scalar bs v rs"
| "loc_set_scalar _ v rs = rs"

section \<open>Inputs of a worker step (\<^verbatim>\<open>utils.build_inputs_dict\<close>)\<close>

record inputs_dict =
  Current :: real
  Total_heat_transfer_coefficient :: real

definition build_inputs_dict :: "real list \<Rightarrow> real list \<Rightarrow> py_error + inputs_dict list" where
  "build_inputs_dict I_b h =
     (if length h < length I_b then Inl IndexError
      else Inr (map2 (\<lambda>i k. \<lparr>Current = i, Total_heat_transfer_coefficient = k\<rparr>) I_b h))"

section \<open>The collaborators\<close>

text \<open>
  The circuit solver (\<^verbatim>\<open>lp.solve_circuit_vectorized\<close>), the construction of a cell
  simulation and its integrator (\<^verbatim>\<open>lp.create_simulation\<close>, \<^verbatim>\<open>lp.update_init_conc\<close>,
  \<^verbatim>\<open>_create_casadi_objects\<close>) and the step function (\<^verbatim>\<open>_serial_step\<close>,
  \<^verbatim>\<open>_mapped_step\<close>) are not part of the solvers: they are parameters of the model.
  \<open>create_casadi_objects\<close> takes the number of cells of the worker, the initial
  current and heat transfer coefficient, the names of the output variables and the
  number of processes, and gives the opaque state of the worker with the names of
  its events. \<open>step_fn\<close> gives the new state, the values of the output variables
  (one row for each variable) and the values of the event indicators (one row for
  each event). Both can fail. \<open>ray_kill\<close> is \<^verbatim>\<open>ray.kill\<close> on the worker at a
  position, with the error it raises, if any.
\<close>

record 'sol collaborators =
  solve_circuit_vectorized :: "netlist \<Rightarrow> real list \<times> real list"
  create_casadi_objects ::
    "nat \<Rightarrow> real \<Rightarrow> real \<Rightarrow> string list \<Rightarrow> nat \<Rightarrow> py_error + ('sol \<times> string list)"
  step_fn :: "'sol \<Rightarrow> inputs_dict list \<Rightarrow> py_error + ('sol \<times> matrix \<times> matrix)"
  ray_kill :: "nat \<Rightarrow> py_error option"

definition new_actor :: "'sol generic_actor" where
  \<comment> \<open>\<^verbatim>\<open>generic_actor()\<close>: no attribute is set\<close>
  "new_actor = \<lparr>step_solutions = None, var_eval = [], events_eval = [], event_names = [],
                 last_events = None, event_change = None\<rparr>"

definition actor_setup ::
  "'sol collaborators \<Rightarrow> 'sol generic_actor \<Rightarrow> nat \<Rightarrow> real \<Rightarrow> real \<Rightarrow> string list \<Rightarrow> nat
     \<Rightarrow> py_error + 'sol generic_actor" where
  "actor_setup env self N I_init htc_init names np =
     (case create_casadi_objects env N I_init htc_init names np of
        Inl e \<Rightarrow> Inl e
      | Inr (s, evs) \<Rightarrow>
          Inr (self\<lparr>step_solutions := Some s, event_names := evs,
                    last_events := None, event_change := None\<rparr>))"

definition actor_step ::
  "'sol collaborators \<Rightarrow> 'sol generic_actor \<Rightarrow> inputs_dict list
     \<Rightarrow> py_error + ('sol generic_actor \<times> bool)" where
  "actor_step env self inputs =
     (case step_solutions self of
        None \<Rightarrow> Inl AttributeError
      | Some s \<Rightarrow>
          (case step_fn env s inputs of
             Inl e \<Rightarrow> Inl e
           | Inr (s', v, ev) \<Rightarrow>
               Inr (check_events
                      (self\<lparr>step_solutions := Some s', var_eval := v, events_eval := ev\<rparr>))))"

definition actor_output :: "'sol generic_actor \<Rightarrow> matrix" where
  \<comment> \<open>\<^verbatim>\<open>generic_actor.output\<close>\<close>
  "actor_output self = var_eval self"

section \<open>The worker pool managers\<close>

text \<open>
  The three managers share \<^verbatim>\<open>generic_manager.solve\<close> and differ in the methods
  \<^verbatim>\<open>split_models\<close>, \<^verbatim>\<open>setup_actors\<close>, \<^verbatim>\<open>step_actors\<close>, \<^verbatim>\<open>get_actor_output\<close>
  and \<^verbatim>\<open>cleanup\<close>: the class of the manager is the field \<open>backend\<close>. Remote calls
  (Ray futures, Dask actor futures) are made and awaited in the order of the
  workers. \<open>actors\<close> and \<open>client\<close> are \<open>None\<close> while the attribute is not set.
  \<open>runtime_up\<close> is the state of the parallel runtime (Ray after \<^verbatim>\<open>ray.init\<close>, the
  Dask client), \<open>logged\<close> the messages given to the logger and to \<^verbatim>\<open>print\<close>;
  the messages that report wall-clock times are left out.
\<close>

datatype backend = Ray | Casadi | Dask

datatype log_entry =
  Notice string | Warning string | Event_warning string "nat list" | Print string

datatype series = Series1 "real list" | Series2 matrix

record 'sol manager =
  backend :: backend
  netlist :: netlist
  dt :: real
  variable_names :: "string list"
  shm_i_app :: matrix
  output_buffer :: "matrix list"
  timestep :: nat
  htc :: "real list list"
  split_index :: "nat list list"
  spm_per_worker :: "nat list"
  actors :: "'sol generic_actor list option"
  client :: "unit option"
  runtime_up :: bool
  all_output :: "string \<rightharpoonup> series"
  logged :: "log_entry list"

definition manager_init :: "backend \<Rightarrow> 'sol manager" where
  \<comment> \<open>the constructors; \<^verbatim>\<open>ray_manager.__init__\<close> starts Ray\<close>
  "manager_init b =
     \<lparr>backend = b, netlist = [], dt = 0, variable_names = [], shm_i_app = [], output_buffer = [],
      timestep = 0, htc = [], split_index = [], spm_per_worker = [], actors = None,
      client = None, runtime_up = (b = Ray), all_output = Map.empty,
      logged = (if b = Ray then [Notice ''Ray initialization started'',
                                 Notice ''Ray initialization complete''] else [])\<rparr>"

definition split_models ::
  "'sol manager \<Rightarrow> nat \<Rightarrow> nat \<Rightarrow> real list \<Rightarrow> (py_error \<times> 'sol manager) + 'sol manager" where
  "split_models self N np h =
     (case backend self of
        Casadi \<Rightarrow>
          (let self1 = self\<lparr>spm_per_worker := [N]\<rparr> in
           case array_split (arange N) 1 of
             Inl e \<Rightarrow> Inl (e, self1)
           | Inr si \<Rightarrow>
               (let self2 = self1\<lparr>split_index := si\<rparr> in
                case array_split h 1 of
                  Inl e \<Rightarrow> Inl (e, self2)
                | Inr hs \<Rightarrow> Inr (self2\<lparr>htc := hs\<rparr>)))
      | _ \<Rightarrow>
          (case array_split h np of
             Inl e \<Rightarrow> Inl (e, self)
           | Inr hs \<Rightarrow>
               (let self1 = self\<lparr>htc := hs\<rparr> in
                case array_split (arange N) np of
                  Inl e \<Rightarrow> Inl (e, self1)
                | Inr si \<Rightarrow>
                    Inr (self1\<lparr>split_index := si, spm_per_worker := map length si\<rparr>))))"

fun setup_each ::
  "'sol collaborators \<Rightarrow> 'sol generic_actor list \<Rightarrow> nat list \<Rightarrow> real \<Rightarrow> real \<Rightarrow> string list
     \<Rightarrow> nat \<Rightarrow> py_error + 'sol generic_actor list" where
  "setup_each env [] ns I_init htc_init names np = Inr []"
| "setup_each env (a # as) ns I_init htc_init names np =
     (case ns of
        [] \<Rightarrow> Inl IndexError
      | n # ns' \<Rightarrow>
          (case actor_setup env a n I_init htc_init names np of
             Inl e \<Rightarrow> Inl e
           | Inr a' \<Rightarrow>
               (case setup_each env as ns' I_init htc_init names np of
                  Inl e \<Rightarrow> Inl e
                | Inr as' \<Rightarrow> Inr (a' # as'))))"

definition setup_actors ::
  "'sol collaborators \<Rightarrow> 'sol manager \<Rightarrow> nat \<Rightarrow> real \<Rightarrow> real
     \<Rightarrow> (py_error \<times> 'sol manager) + 'sol manager" where
  "setup_actors env self np I_init htc_init =
     (case backend self of
        Ray \<Rightarrow>
          (let self1 = self\<lparr>actors := Some (replicate np new_actor)\<rparr> in
           case setup_each env (replicate np new_actor) (spm_per_worker self1) I_init htc_init
                  (variable_names self1) 1 of
             Inl e \<Rightarrow> Inl (e, self1)
           | Inr as \<Rightarrow> Inr (self1\<lparr>actors := Some as\<rparr>))
      | Casadi \<Rightarrow>
          (let self1 = self\<lparr>actors := Some [new_actor]\<rparr> in
           case setup_each env [new_actor] (spm_per_worker self1) I_init htc_init
                  (variable_names self1) np of
             Inl e \<Rightarrow> Inl (e, self1)
           | Inr as \<Rightarrow> Inr (self1\<lparr>actors := Some as\<rparr>))
      | Dask \<Rightarrow>
          (let self1 = self\<lparr>logged := logged self @ [Notice ''Dask initialization started''],
                            client := Some (), runtime_up := True\<rparr>;
               self2 = self1\<lparr>logged := logged self1 @ [Notice ''Dask initialization complete''],
                             actors := Some (replicate np new_actor)\<rparr> in
           case setup_each env (replicate np new_actor) (spm_per_worker self2) I_init htc_init
                  (variable_names self2) 1 of
             Inl e \<Rightarrow> Inl (e, self2)
           | Inr as \<Rightarrow> Inr (self2\<lparr>actors := Some as\<rparr>)))"

definition actor_i_app :: "'sol manager \<Rightarrow> nat \<Rightarrow> py_error + real list" where
  "actor_i_app self index =
     (case get (split_index self) index of
        Inl e \<Rightarrow> Inl e
      | Inr actor_indices \<Rightarrow>
          (case get (shm_i_app self) (timestep self) of
             Inl e \<Rightarrow> Inl e
           | Inr row \<Rightarrow> take_indices row actor_indices))"

definition actor_htc :: "'sol manager \<Rightarrow> nat \<Rightarrow> py_error + real list" where
  "actor_htc self index = get (htc self) index"

fun build_inputs_from :: "'sol manager \<Rightarrow> nat list \<Rightarrow> py_error + inputs_dict list list" where
  "build_inputs_from self [] = Inr []"
| "build_inputs_from self (i # is) =
     (case actor_i_app self i of
        Inl e \<Rightarrow> Inl e
      | Inr I_app \<Rightarrow>
          (case actor_htc self i of
             Inl e \<Rightarrow> Inl e
           | Inr h \<Rightarrow>
               (case build_inputs_dict I_app h of
                  Inl e \<Rightarrow> Inl e
                | Inr d \<Rightarrow>
                    (case build_inputs_from self is of
                       Inl e \<Rightarrow> Inl e
                     | Inr ds \<Rightarrow> Inr (d # ds)))))"

definition build_inputs :: "'sol manager \<Rightarrow> py_error + inputs_dict list list" where
  "build_inputs self =
     (case actors self of
        None \<Rightarrow> Inl AttributeError
      | Some as \<Rightarrow> build_inputs_from self [0..<length as])"

fun step_each ::
  "'sol collaborators \<Rightarrow> 'sol generic_actor list \<Rightarrow> inputs_dict list list
     \<Rightarrow> py_error + ('sol generic_actor list \<times> bool list)" where
  "step_each env [] ins = Inr ([], [])"
| "step_each env (a # as) ins =
     (case ins of
        [] \<Rightarrow> Inl IndexError
      | i # ins' \<Rightarrow>
          (case actor_step env a i of
             Inl e \<Rightarrow> Inl e
           | Inr (a', ev) \<Rightarrow>
               (case step_each env as ins' of
                  Inl e \<Rightarrow> Inl e
                | Inr (as', evs) \<Rightarrow> Inr (a' # as', ev # evs))))"

definition where_true :: "bool list \<Rightarrow> nat list" where
  \<comment> \<open>the positions of the true entries of a row\<close>
  "where_true bs = filter (\<lambda>i. bs ! i) [0..<length bs]"

fun log_event_rows ::
  "string list \<Rightarrow> bool list list \<Rightarrow> nat \<Rightarrow> log_entry list \<Rightarrow> py_error + log_entry list" where
  "log_event_rows names [] r lg = Inr lg"
| "log_event_rows names (row # rows) r lg =
     (if list_ex (\<lambda>b. b) row then
        (case get names r of
           Inl e \<Rightarrow> Inl e
         | Inr name \<Rightarrow> log_event_rows names rows (Suc r) (lg @ [Event_warning name (where_true row)]))
      else log_event_rows names rows (Suc r) lg)"

definition step_actors ::
  "'sol collaborators \<Rightarrow> 'sol manager \<Rightarrow> (py_error \<times> 'sol manager) + 'sol manager" where
  "step_actors env self =
     (case backend self of
        Casadi \<Rightarrow>
          (case actors self of
             None \<Rightarrow> Inl (AttributeError, self)
           | Some as \<Rightarrow>
               (case get as 0 of
                  Inl e \<Rightarrow> Inl (e, self)
                | Inr a \<Rightarrow>
                    (case build_inputs self of
                       Inl e \<Rightarrow> Inl (e, self)
                     | Inr ins \<Rightarrow>
                         (case get ins 0 of
                            Inl e \<Rightarrow> Inl (e, self)
                          | Inr i \<Rightarrow>
                              (case actor_step env a i of
                                 Inl e \<Rightarrow> Inl (e, self)
                               | Inr (a', events) \<Rightarrow>
                                   (let self1 = self\<lparr>actors := Some (as[0 := a'])\<rparr> in
                                    if events then
                                      (let self2 = self1\<lparr>logged := logged self1
                                                       @ [Warning ''Events were triggered'']\<rparr> in
                                       case event_change a' of
                                         None \<Rightarrow> Inl (AttributeError, self2)
                                       | Some change \<Rightarrow>
                                           (case log_event_rows (event_names a') change 0
                                                   (logged self2) of
                                              Inl e \<Rightarrow> Inl (e, self2)
                                            | Inr lg \<Rightarrow> Inr (self2\<lparr>logged := lg\<rparr>)))
                                    else Inr self1))))))
      | _ \<Rightarrow>
          (case build_inputs self of
             Inl e \<Rightarrow> Inl (e, self)
           | Inr ins \<Rightarrow>
               (case actors self of
                  None \<Rightarrow> Inl (AttributeError, self)
                | Some as \<Rightarrow>
                    (case step_each env as ins of
                       Inl e \<Rightarrow> Inl (e, self)
                     | Inr (as', events) \<Rightarrow>
                         (let self1 = self\<lparr>actors := Some as'\<rparr> in
                          if list_ex (\<lambda>b. b) events
                          then Inr (self1\<lparr>logged := logged self1 @ [Warning ''Events were triggered'']\<rparr>)
                          else Inr self1)))))"

definition scatter :: "real list \<Rightarrow> nat list \<Rightarrow> real list \<Rightarrow> real list" where
  \<comment> \<open>\<^verbatim>\<open>row[idx] = vals\<close>\<close>
  "scatter row idx vals = fold (\<lambda>(i, v) r. r[i := v]) (zip idx vals) row"

definition set_output_cells ::
  "matrix list \<Rightarrow> nat \<Rightarrow> nat list \<Rightarrow> matrix \<Rightarrow> py_error + matrix list" where
  \<comment> \<open>\<^verbatim>\<open>output[:, step, idx] = out\<close>\<close>
  "set_output_cells out3 st idx out =
     (if list_ex (\<lambda>arr. length arr \<le> st \<or> list_ex (\<lambda>i. length (arr ! st) \<le> i) idx) out3
      then Inl IndexError
      else if length out \<noteq> length out3 \<or> list_ex (\<lambda>r. length r \<noteq> length idx) out
      then Inl ValueError
      else Inr (map2 (\<lambda>arr vals. arr[st := scatter (arr ! st) idx vals]) out3 out))"

definition set_output_all :: "matrix list \<Rightarrow> nat \<Rightarrow> matrix \<Rightarrow> py_error + matrix list" where
  \<comment> \<open>\<^verbatim>\<open>output[:, step, :] = out\<close>\<close>
  "set_output_all out3 st out =
     (if list_ex (\<lambda>arr. length arr \<le> st) out3 then Inl IndexError
      else if length out \<noteq> length out3
              \<or> list_ex (\<lambda>(arr, r). length r \<noteq> length (arr ! st)) (zip out3 out)
      then Inl ValueError
      else Inr (map2 (\<lambda>arr vals. arr[st := vals]) out3 out))"

fun collect_each ::
  "matrix list \<Rightarrow> nat \<Rightarrow> nat list list \<Rightarrow> nat \<Rightarrow> 'sol generic_actor list
     \<Rightarrow> py_error + matrix list" where
  "collect_each out3 st si i [] = Inr out3"
| "collect_each out3 st si i (a # as) =
     (case get si i of
        Inl e \<Rightarrow> Inl e
      | Inr idx \<Rightarrow>
          (case set_output_cells out3 st idx (actor_output a) of
             Inl e \<Rightarrow> Inl e
           | Inr out3' \<Rightarrow> collect_each out3' st si (Suc i) as))"

definition get_actor_output ::
  "'sol manager \<Rightarrow> nat \<Rightarrow> (py_error \<times> 'sol manager) + 'sol manager" where
  "get_actor_output self st =
     (case actors self of
        None \<Rightarrow> Inl (AttributeError, self)
      | Some as \<Rightarrow>
          (case backend self of
             Casadi \<Rightarrow>
               (case get as 0 of
                  Inl e \<Rightarrow> Inl (e, self)
                | Inr a \<Rightarrow>
                    (case set_output_all (output_buffer self) st (actor_output a) of
                       Inl e \<Rightarrow> Inl (e, self)
                     | Inr out3 \<Rightarrow> Inr (self\<lparr>output_buffer := out3\<rparr>)))
           | _ \<Rightarrow>
               (case collect_each (output_buffer self) st (split_index self) 0 as of
                  Inl e \<Rightarrow> Inl (e, self)
                | Inr out3 \<Rightarrow> Inr (self\<lparr>output_buffer := out3\<rparr>))))"

fun kill_each :: "'sol collaborators \<Rightarrow> nat list \<Rightarrow> py_error option" where
  "kill_each env [] = None"
| "kill_each env (i # is) =
     (case ray_kill env i of Some e \<Rightarrow> Some e | None \<Rightarrow> kill_each env is)"

definition cleanup ::
  "'sol collaborators \<Rightarrow> 'sol manager \<Rightarrow> (py_error \<times> 'sol manager) + 'sol manager" where
  "cleanup env self =
     (case backend self of
        Ray \<Rightarrow>
          (case actors self of
             None \<Rightarrow> Inl (AttributeError, self)
           | Some as \<Rightarrow>
               (case kill_each env [0..<length as] of
                  Some e \<Rightarrow> Inl (e, self)
                | None \<Rightarrow>
                    Inr (self\<lparr>logged := logged self @ [Notice ''Shutting down Ray''],
                              runtime_up := False\<rparr>)))
      | Casadi \<Rightarrow> Inr self
      | Dask \<Rightarrow>
          (let self1 = self\<lparr>logged := logged self @ [Notice ''Shutting down Dask client'']\<rparr> in
           case client self1 of
             None \<Rightarrow> Inl (AttributeError, self1)
           | Some c \<Rightarrow> Inr (self1\<lparr>runtime_up := False\<rparr>)))"

section \<open>The orchestrator: \<^verbatim>\<open>generic_manager.solve\<close>\<close>

text \<open>
  The arguments of \<^verbatim>\<open>solve\<close>. The experiment is read through
  \<^verbatim>\<open>lp.generate_protocol_from_experiment\<close> and \<^verbatim>\<open>experiment.period\<close> only, so it is
  given as the protocol and the period. \<^verbatim>\<open>sim_func\<close> is handed to the workers
  unread and is part of \<open>create_casadi_objects\<close>.
\<close>

record solve_args =
  arg_netlist :: netlist
  arg_parameter_values :: "string \<rightharpoonup> real"
  experiment_protocol :: "real list"
  experiment_period :: real
  arg_htc :: "real list"
  arg_output_variables :: "string list option"
  arg_initial_soc :: real
  arg_nproc :: nat

text \<open>
  The local variables of \<^verbatim>\<open>solve\<close>. The period is a float, so \<^verbatim>\<open>time\<close> and
  \<^verbatim>\<open>end_time\<close> are floats: \<^verbatim>\<open>time += self.dt\<close> is the rounded sum
  \<open>fl64 (time + dt)\<close> and \<^verbatim>\<open>self.dt * Nsteps\<close> the rounded product
  \<open>fl64 (dt * Nsteps)\<close>; the comparisons of lines 198 and 202 are exact.
\<close>

record solve_locals =
  Ri_map :: "bool list"
  V_map :: "bool list"
  I_map :: "bool list"
  Terminal_Node :: "nat list"
  Nspm :: nat
  protocol :: "real list"
  Nsteps :: nat
  Nvar :: nat
  V_node :: "real list"
  I_batt :: "real list"
  time :: real
  end_time :: real
  V_terminal :: "real list"
  record_times :: "real list"
  v_cut_lower :: real
  v_cut_higher :: real
  step :: nat

fun append_new :: "string list \<Rightarrow> string list \<Rightarrow> string list" where
  \<comment> \<open>\<^verbatim>\<open>for out in output_variables: if out not in names: names.append(out)\<close>\<close>
  "append_new names [] = names"
| "append_new names (out # outs) =
     (if out \<in> set names then append_new names outs else append_new (names @ [out]) outs)"

definition make_variable_names :: "string list option \<Rightarrow> string list" where
  "make_variable_names output_variables =
     (let names = [''Terminal voltage [V]'', ''Measured battery open circuit voltage [V]''] in
      case output_variables of None \<Rightarrow> names | Some outs \<Rightarrow> append_new names outs)"

definition set_row :: "matrix \<Rightarrow> nat \<Rightarrow> real list \<Rightarrow> py_error + matrix" where
  \<comment> \<open>\<^verbatim>\<open>A[i, :] = row\<close>\<close>
  "set_row A i row =
     (if length A \<le> i then Inl IndexError
      else if length row \<noteq> length (A ! i) then Inl ValueError
      else Inr (A[i := row]))"

definition terminal_voltage :: "real list \<Rightarrow> nat list \<Rightarrow> py_error + real" where
  \<comment> \<open>\<^verbatim>\<open>V_node[Terminal_Node][0]\<close>\<close>
  "terminal_voltage Vn tn =
     (case take_indices Vn tn of Inl e \<Rightarrow> Inl e | Inr vs \<Rightarrow> get vs 0)"

definition solve_init ::
  "'sol collaborators \<Rightarrow> 'sol manager \<Rightarrow> solve_args
     \<Rightarrow> (py_error \<times> 'sol manager) + ('sol manager \<times> solve_locals)" where
  "solve_init env self0 args =
     (let self1 = self0\<lparr>netlist := arg_netlist args\<rparr>;
          Ri = desc_map ''Ri'' (netlist self1);
          V = desc_map ''V'' (netlist self1);
          I = desc_map ''I'' (netlist self1);
          tn = map node1 (select_rows I (netlist self1));
          N = length (filter (\<lambda>b. b) V)
      in
      case split_models self1 N (arg_nproc args) (arg_htc args) of
        Inl e \<Rightarrow> Inl e
      | Inr self2 \<Rightarrow>
          (let prot = experiment_protocol args;
               self3 = self2\<lparr>dt := experiment_period args\<rparr>;
               Ns = length prot;
               (Vn, Ib) = solve_circuit_vectorized env (netlist self3);
               self4 = self3\<lparr>variable_names := make_variable_names (arg_output_variables args)\<rparr>;
               Nv = length (variable_names self4);
               self5 = self4\<lparr>shm_i_app := np_zeros2 Ns N, output_buffer := np_zeros3 Nv Ns N\<rparr>
           in
           case set_row (shm_i_app self5) 0 (map (\<lambda>x. x * - 1) Ib) of
             Inl e \<Rightarrow> Inl (e, self5)
           | Inr A \<Rightarrow>
               (let self6 = self5\<lparr>shm_i_app := A, timestep := 0\<rparr> in
                case arg_parameter_values args ''Lower voltage cut-off [V]'' of
                  None \<Rightarrow> Inl (KeyError, self6)
                | Some lo \<Rightarrow>
                    (case arg_parameter_values args ''Upper voltage cut-off [V]'' of
                       None \<Rightarrow> Inl (KeyError, self6)
                     | Some hi \<Rightarrow>
                         (case get (shm_i_app self6 ! 0) 0 of
                            Inl e \<Rightarrow> Inl (e, self6)
                          | Inr I_init \<Rightarrow>
                              (case get (arg_htc args) 0 of
                                 Inl e \<Rightarrow> Inl (e, self6)
                               | Inr htc_init \<Rightarrow>
                                   (case setup_actors env self6 (arg_nproc args) I_init htc_init of
                                      Inl e \<Rightarrow> Inl e
                                    | Inr self7 \<Rightarrow>
                                        Inr (self7\<lparr>logged := logged self7
                                                     @ [Notice ''Starting step solve'']\<rparr>,
                                             \<lparr>Ri_map = Ri, V_map = V, I_map = I,
                                              Terminal_Node = tn, Nspm = N, protocol = prot,
                                              Nsteps = Ns, Nvar = Nv, V_node = Vn, I_batt = Ib,
                                              time = 0, end_time = fl64 (dt self7 * real Ns),
                                              V_terminal = [], record_times = [],
                                              v_cut_lower = lo, v_cut_higher = hi,
                                              step = 0\<rparr>))))))))"

definition update_netlist ::
  "solve_locals \<Rightarrow> real list \<Rightarrow> real list \<Rightarrow> real \<Rightarrow> netlist \<Rightarrow> py_error \<times> netlist + netlist" where
  \<comment> \<open>lines 194 to 196; an error leaves the rows written before it\<close>
  "update_netlist l temp_ocv temp_Ri setpoint nl =
     (case loc_set_values (V_map l) temp_ocv nl of
        Inl e \<Rightarrow> Inl (e, nl)
      | Inr nl1 \<Rightarrow>
          (case loc_set_values (Ri_map l) temp_Ri nl1 of
             Inl e \<Rightarrow> Inl (e, nl1)
           | Inr nl2 \<Rightarrow> Inr (loc_set_scalar (I_map l) setpoint nl2)))"

definition read_step ::
  "'sol manager \<Rightarrow> solve_locals \<Rightarrow> py_error + (real list \<times> real list \<times> real list)" where
  \<comment> \<open>\<^verbatim>\<open>output[0, step, :]\<close>, \<^verbatim>\<open>output[1, step, :]\<close> and \<^verbatim>\<open>shm_i_app[step, :]\<close>\<close>
  "read_step self l =
     (case get (output_buffer self) 0 of
        Inl e \<Rightarrow> Inl e
      | Inr out_v \<Rightarrow>
          (case get out_v (step l) of
             Inl e \<Rightarrow> Inl e
           | Inr temp_v \<Rightarrow>
               (case get (output_buffer self) 1 of
                  Inl e \<Rightarrow> Inl e
                | Inr out_ocv \<Rightarrow>
                    (case get out_ocv (step l) of
                       Inl e \<Rightarrow> Inl e
                     | Inr temp_ocv \<Rightarrow>
                         (case get (shm_i_app self) (step l) of
                            Inl e \<Rightarrow> Inl e
                          | Inr i_app \<Rightarrow> Inr (temp_v, temp_ocv, i_app))))))"

definition resolve_circuit ::
  "'sol collaborators \<Rightarrow> netlist \<Rightarrow> solve_locals \<Rightarrow> py_error + solve_locals" where
  \<comment> \<open>lines 198 to 201\<close>
  "resolve_circuit env nl l =
     (if time l \<le> end_time l then
        (let (Vn, Ib) = solve_circuit_vectorized env nl;
             l1 = l\<lparr>record_times := record_times l @ [time l], V_node := Vn, I_batt := Ib\<rparr>
         in case terminal_voltage Vn (Terminal_Node l1) of
              Inl e \<Rightarrow> Inl e
            | Inr vt \<Rightarrow> Inr (l1\<lparr>V_terminal := V_terminal l1 @ [vt]\<rparr>))
      else Inr l)"

definition next_currents :: "matrix \<Rightarrow> solve_locals \<Rightarrow> py_error + matrix" where
  \<comment> \<open>lines 202 and 203\<close>
  "next_currents A l =
     (if time l < end_time l
      then set_row A (step l + 1) (map (\<lambda>x. x * - 1) (I_batt l))
      else Inr A)"

definition check_cutoffs ::
  "'sol manager \<Rightarrow> solve_locals \<Rightarrow> real list \<Rightarrow> 'sol manager \<times> solve_locals \<times> bool" where
  \<comment> \<open>lines 205 to 213; the third component tells that the loop is left by \<^verbatim>\<open>break\<close>\<close>
  "check_cutoffs self l temp_v =
     (if list_ex (\<lambda>v. v < v_cut_lower l) temp_v
      then (self\<lparr>logged := logged self @ [Print ''Low voltage limit reached'']\<rparr>, l, True)
      else if list_ex (\<lambda>v. v > v_cut_higher l) temp_v
      then (self\<lparr>logged := logged self @ [Print ''High voltage limit reached'']\<rparr>, l, True)
      else (self\<lparr>timestep := timestep self + 1\<rparr>, l, False))"

definition update_circuit ::
  "'sol collaborators \<Rightarrow> 'sol manager \<Rightarrow> solve_locals
     \<Rightarrow> (py_error \<times> 'sol manager) + ('sol manager \<times> solve_locals \<times> bool)" where
  \<comment> \<open>lines 182 to 213: the body of the loop after the workers have stepped\<close>
  "update_circuit env self l0 =
     (let l = l0\<lparr>time := fl64 (time l0 + dt self)\<rparr> in
      case read_step self l of
        Inl e \<Rightarrow> Inl (e, self)
      | Inr (temp_v, temp_ocv, i_app) \<Rightarrow>
          (let temp_Ri = derive_Ri temp_ocv temp_v i_app in
           case get (protocol l) (step l) of
             Inl e \<Rightarrow> Inl (e, self)
           | Inr setpoint \<Rightarrow>
               (case update_netlist l temp_ocv temp_Ri setpoint (netlist self) of
                  Inl (e, nl) \<Rightarrow> Inl (e, self\<lparr>netlist := nl\<rparr>)
                | Inr nl \<Rightarrow>
                    (let self1 = self\<lparr>netlist := nl\<rparr> in
                     case resolve_circuit env (netlist self1) l of
                       Inl e \<Rightarrow> Inl (e, self1)
                     | Inr l1 \<Rightarrow>
                         (case next_currents (shm_i_app self1) l1 of
                            Inl e \<Rightarrow> Inl (e, self1)
                          | Inr A \<Rightarrow> Inr (check_cutoffs (self1\<lparr>shm_i_app := A\<rparr>) l1 temp_v))))))"

definition solve_step ::
  "'sol collaborators \<Rightarrow> 'sol manager \<Rightarrow> solve_locals
     \<Rightarrow> (py_error \<times> 'sol manager) + ('sol manager \<times> solve_locals \<times> bool)" where
  \<comment> \<open>lines 178 to 213: one pass through the body of the loop\<close>
  "solve_step env self l =
     (case step_actors env self of
        Inl e \<Rightarrow> Inl e
      | Inr self1 \<Rightarrow>
          (case get_actor_output self1 (step l) of
             Inl e \<Rightarrow> Inl e
           | Inr self2 \<Rightarrow> update_circuit env self2 l))"

fun solve_loop ::
  "'sol collaborators \<Rightarrow> nat list \<Rightarrow> 'sol manager \<times> solve_locals
     \<Rightarrow> (py_error \<times> 'sol manager) + ('sol manager \<times> solve_locals)" where
  \<comment> \<open>\<^verbatim>\<open>for step in range(Nsteps)\<close>, left by \<^verbatim>\<open>break\<close> or at the end of the range\<close>
  "solve_loop env [] sl = Inr sl"
| "solve_loop env (k # ks) sl =
     (case solve_step env (fst sl) ((snd sl)\<lparr>step := k\<rparr>) of
        Inl e \<Rightarrow> Inl e
      | Inr (self', l', stop) \<Rightarrow>
          if stop then Inr (self', l') else solve_loop env ks (self', l'))"

fun store_variables ::
  "string list \<Rightarrow> matrix list \<Rightarrow> nat \<Rightarrow> (string \<rightharpoonup> series) \<Rightarrow> py_error + (string \<rightharpoonup> series)" where
  \<comment> \<open>\<^verbatim>\<open>for j in range(Nvar): all_output[variable_names[j]] = output[j, :step + 1, :]\<close>\<close>
  "store_variables [] outs n m = Inr m"
| "store_variables (name # names) outs n m =
     (case outs of
        [] \<Rightarrow> Inl IndexError
      | arr # outs' \<Rightarrow> store_variables names outs' n (m(name \<mapsto> Series2 (take n arr))))"

definition collect_outputs :: "'sol manager \<Rightarrow> solve_locals \<Rightarrow> py_error + (string \<rightharpoonup> series)" where
  \<comment> \<open>lines 217 to 223\<close>
  "collect_outputs self l =
     (let m1 = [''Time [s]'' \<mapsto> Series1 (record_times l)];
          m2 = m1(''Pack current [A]'' \<mapsto> Series1 (take (step l + 1) (protocol l)));
          m3 = m2(''Pack terminal voltage [V]'' \<mapsto> Series1 (V_terminal l));
          m4 = m3(''Cell current [A]'' \<mapsto> Series2 (take (step l + 1) (shm_i_app self)))
      in store_variables (take (Nvar l) (variable_names self)) (output_buffer self) (step l + 1) m4)"

definition solve ::
  "'sol collaborators \<Rightarrow> 'sol manager \<Rightarrow> solve_args
     \<Rightarrow> (py_error \<times> 'sol manager) + ((string \<rightharpoonup> series) \<times> 'sol manager)" where
  "solve env self0 args =
     (case solve_init env self0 args of
        Inl e \<Rightarrow> Inl e
      | Inr sl \<Rightarrow>
          (case solve_loop env [0..<Nsteps (snd sl)] sl of
             Inl e \<Rightarrow> Inl e
           | Inr (self1, l) \<Rightarrow>
               (let self2 = self1\<lparr>logged := logged self1 @ [Notice ''Step solve finished'']\<rparr> in
                case cleanup env self2 of
                  Inl e \<Rightarrow> Inl e
                | Inr self3 \<Rightarrow>
                    (case collect_outputs self3 l of
                       Inl e \<Rightarrow> Inl (e, self3)
                     | Inr out \<Rightarrow> Inr (out, self3\<lparr>all_output := out\<rparr>)))))"

section \<open>A small pack for the examples\<close>

text \<open>
  Two cells in parallel on one current source. The circuit solver of the example
  shares the source current between the cells; the cell model of the example loses
  one volt of terminal voltage in every step, gives the applied current for every
  variable beyond the two that are always evaluated, and has one event indicator,
  the distance of the terminal voltage to the lower cutoff. Its state is the number
  of steps taken and the number of output variables. With the cutoffs
  \<open>2.5\<close> and \<open>4.2\<close> the terminal voltage is \<open>4\<close>, \<open>3\<close>, \<open>2\<close> in the steps
  \<open>0\<close>, \<open>1\<close>, \<open>2\<close>.
\<close>

definition demo_netlist :: netlist where
  "demo_netlist =
     [\<lparr>desc = ''I0'', node1 = 1, node2 = 0, val = 0\<rparr>,
      \<lparr>desc = ''V0'', node1 = 2, node2 = 0, val = 4\<rparr>,
      \<lparr>desc = ''Ri0'', node1 = 1, node2 = 2, val = 1 / 100\<rparr>,
      \<lparr>desc = ''V1'', node1 = 3, node2 = 0, val = 4\<rparr>,
      \<lparr>desc = ''Ri1'', node1 = 1, node2 = 3, val = 1 / 100\<rparr>]"

definition demo_circuit :: "netlist \<Rightarrow> real list \<times> real list" where
  "demo_circuit nl =
     (let vs = map val (select_rows (desc_map ''V'' nl) nl);
          i = sum_list (map val (select_rows (desc_map ''I'' nl) nl))
      in ([0, sum_list vs / 2, 0, 0], map (\<lambda>v. - i / 2) vs))"

definition demo_step ::
  "nat \<times> nat \<Rightarrow> inputs_dict list \<Rightarrow> py_error + ((nat \<times> nat) \<times> matrix \<times> matrix)" where
  "demo_step sn inputs =
     (case sn of (s, nv) \<Rightarrow>
        Inr ((Suc s, nv),
             [map (\<lambda>i. 4 - real s) inputs, map (\<lambda>i. 4 - real s + Current i / 10) inputs]
               @ replicate (nv - 2) (map Current inputs),
             [map (\<lambda>i. 4 - real s - 5 / 2) inputs]))"

definition demo_env :: "(nat \<times> nat) collaborators" where
  "demo_env =
     \<lparr>solve_circuit_vectorized = demo_circuit,
      create_casadi_objects =
        (\<lambda>n i0 h0 names np. Inr ((0, length names), [''Minimum voltage''])),
      step_fn = demo_step,
      ray_kill = (\<lambda>i. None)\<rparr>"

definition demo_args :: solve_args where
  "demo_args =
     \<lparr>arg_netlist = demo_netlist,
      arg_parameter_values = [''Lower voltage cut-off [V]'' \<mapsto> 5 / 2,
                              ''Upper voltage cut-off [V]'' \<mapsto> 21 / 5],
      experiment_protocol = [2, 2, 2, 2],
      experiment_period = 10,
      arg_htc = [10, 10],
      arg_output_variables = None,
      arg_initial_soc = 1 / 2,
      arg_nproc = 1\<rparr>"




text \<open>
  A cell model that loses a tenth of a volt in every step, in a protocol of six
  steps with the lower cutoff at \<open>3.55\<close>: the terminal voltage is
  \<open>4.0\<close>, \<open>3.9\<close>, \<open>3.8\<close>, \<open>3.7\<close>, \<open>3.6\<close>, \<open>3.5\<close>, and leaves the limits in
  step \<open>5\<close>, the last of the protocol. The period is an argument.
\<close>

definition slow_step ::
  "nat \<times> nat \<Rightarrow> inputs_dict list \<Rightarrow> py_error + ((nat \<times> nat) \<times> matrix \<times> matrix)" where
  "slow_step sn inputs =
     (case sn of (s, nv) \<Rightarrow>
        Inr ((Suc s, nv),
             [map (\<lambda>i. 4 - real s / 10) inputs, map (\<lambda>i. 4 - real s / 10 + Current i / 10) inputs]
               @ replicate (nv - 2) (map Current inputs),
             [map (\<lambda>i. 4 - real s / 10 - 71 / 20) inputs]))"

definition slow_env :: "(nat \<times> nat) collaborators" where
  "slow_env = demo_env\<lparr>step_fn := slow_step\<rparr>"

definition slow_args :: "real \<Rightarrow> solve_args" where
  "slow_args period =
     demo_args\<lparr>arg_parameter_values := [''Lower voltage cut-off [V]'' \<mapsto> 71 / 20,
                                         ''Upper voltage cut-off [V]'' \<mapsto> 21 / 5],
               experiment_protocol := [2, 2, 2, 2, 2, 2],
               experiment_period := period\<rparr>"
section \<open>Notions of the statements\<close>

text \<open>
  \<open>crossing\<close> is the sign change of an event indicator between two steps,
  \<open>topology\<close> what a netlist keeps apart from its values, and two masks are
  disjoint when no row is selected by both.
\<close>

definition crossing :: "matrix \<Rightarrow> matrix \<Rightarrow> nat \<Rightarrow> nat \<Rightarrow> bool" where
  "crossing previous current e c = (sgn (previous ! e ! c) * sgn (current ! e ! c) < 0)"

definition topology :: "netlist \<Rightarrow> (string \<times> nat \<times> nat) list" where
  "topology nl = map (\<lambda>r. (desc r, node1 r, node2 r)) nl"

definition disjoint_masks :: "bool list \<Rightarrow> bool list \<Rightarrow> bool" where
  "disjoint_masks a b = list_all (\<lambda>(x, y). \<not> (x \<and> y)) (zip a b)"

text \<open>
  The buffers are shaped when the current buffer has a row for every step and the
  output buffer a block for every variable, each with a row for every step, and all
  rows have an entry for every cell. \<open>same_consts\<close> relates the local variables
  before and after a step: the loop changes \<open>time\<close>, \<open>record_times\<close>, \<open>V_terminal\<close>,
  \<open>V_node\<close> and \<open>I_batt\<close> only. \<open>outside\<close> is the test of the voltage limits.
\<close>

definition shaped :: "'sol manager \<Rightarrow> solve_locals \<Rightarrow> bool" where
  "shaped self l \<longleftrightarrow>
     length (shm_i_app self) = Nsteps l
     \<and> list_all (\<lambda>row. length row = Nspm l) (shm_i_app self)
     \<and> length (output_buffer self) = Nvar l
     \<and> list_all (\<lambda>arr. length arr = Nsteps l \<and> list_all (\<lambda>row. length row = Nspm l) arr)
          (output_buffer self)
     \<and> length (protocol l) = Nsteps l
     \<and> length (variable_names self) = Nvar l
     \<and> 2 \<le> Nvar l"

definition same_consts :: "solve_locals \<Rightarrow> solve_locals \<Rightarrow> bool" where
  "same_consts l l' \<longleftrightarrow>
     Ri_map l' = Ri_map l \<and> V_map l' = V_map l \<and> I_map l' = I_map l
     \<and> Terminal_Node l' = Terminal_Node l \<and> Nspm l' = Nspm l \<and> protocol l' = protocol l
     \<and> Nsteps l' = Nsteps l \<and> Nvar l' = Nvar l \<and> end_time l' = end_time l
     \<and> v_cut_lower l' = v_cut_lower l \<and> v_cut_higher l' = v_cut_higher l
     \<and> step l' = step l"

definition outside :: "real \<Rightarrow> real \<Rightarrow> real list \<Rightarrow> bool" where
  "outside lo hi temp_v \<longleftrightarrow> list_ex (\<lambda>v. v < lo) temp_v \<or> list_ex (\<lambda>v. v > hi) temp_v"

text \<open>\<open>row_written st\<close> relates the output buffer before and after the outputs of
  step \<open>st\<close> are collected: the shape is kept and the rows of the other steps are
  unchanged.\<close>

definition row_written :: "nat \<Rightarrow> matrix list \<Rightarrow> matrix list \<Rightarrow> bool" where
  "row_written st ob ob' \<longleftrightarrow>
     length ob' = length ob
     \<and> (\<forall>j<length ob. length (ob' ! j) = length (ob ! j)
           \<and> (\<forall>r. length (ob' ! j ! r) = length (ob ! j ! r))
           \<and> (\<forall>r. r \<noteq> st \<longrightarrow> ob' ! j ! r = ob ! j ! r))"

text \<open>The state of the loop before the pass for step \<open>k\<close>, when no earlier step
  has left the voltage limits.\<close>

definition loop_inv :: "nat \<Rightarrow> 'sol manager \<Rightarrow> solve_locals \<Rightarrow> bool" where
  "loop_inv k self l \<longleftrightarrow>
     shaped self l
     \<and> (\<forall>j<k. \<not> outside (v_cut_lower l) (v_cut_higher l) (output_buffer self ! 0 ! j))"

text \<open>The number of recorded steps of a series, and the test that a series is a
  two-dimensional array of \<open>n\<close> steps by \<open>c\<close> cells.\<close>

fun series_len :: "series \<Rightarrow> nat" where
  "series_len (Series1 xs) = length xs"
| "series_len (Series2 M) = length M"

fun step_by_cell :: "nat \<Rightarrow> nat \<Rightarrow> series \<Rightarrow> bool" where
  "step_by_cell n c (Series1 xs) = False"
| "step_by_cell n c (Series2 M) = (length M = n \<and> list_all (\<lambda>row. length row = c) M)"

definition fixed_keys :: "string set" where
  "fixed_keys = {''Time [s]'', ''Pack current [A]'', ''Pack terminal voltage [V]'',
                 ''Cell current [A]''}"

definition requested :: "string list option \<Rightarrow> string set" where
  "requested output_variables = (case output_variables of None \<Rightarrow> {} | Some outs \<Rightarrow> set outs)"

section \<open>Lemmas on the split\<close>

lemma length_cumsum_from [simp]: "length (cumsum_from acc xs) = length xs"
  by (induction xs arbitrary: acc) auto

lemma cumsum_from_nth:
  "i < length xs \<Longrightarrow> cumsum_from acc xs ! i = acc + sum_list (take (Suc i) xs)"
proof (induction xs arbitrary: acc i)
  case Nil
  then show ?case by simp
next
  case (Cons x xs)
  show ?case
  proof (cases i)
    case 0
    then show ?thesis by simp
  next
    case (Suc j)
    with Cons.prems have "j < length xs" by simp
    from Cons.IH [OF this, of "acc + x"] Suc show ?thesis by simp
  qed
qed

lemma slice_append:
  assumes "a \<le> b" "b \<le> c"
  shows "slice xs a b @ slice xs b c = slice xs a c"
proof -
  have "take (c - a) (drop a xs) = take ((b - a) + (c - b)) (drop a xs)"
    using assms by simp
  also have "\<dots> = take (b - a) (drop a xs) @ take (c - b) (drop (b - a) (drop a xs))"
    by (rule take_add)
  also have "drop (b - a) (drop a xs) = drop b xs"
    using assms by simp
  finally show ?thesis by (simp add: slice_def)
qed

lemma steps_mono:
  "(\<forall>i<n. (d :: nat list) ! i \<le> d ! Suc i) \<Longrightarrow> k \<le> n \<Longrightarrow> d ! 0 \<le> d ! k"
proof (induction k)
  case 0
  then show ?case by simp
next
  case (Suc k)
  then have "d ! 0 \<le> d ! k" "d ! k \<le> d ! Suc k" by auto
  then show ?case by simp
qed

lemma concat_slices:
  "(\<forall>i<n. (d :: nat list) ! i \<le> d ! Suc i) \<Longrightarrow>
   concat (map (\<lambda>i. slice xs (d ! i) (d ! Suc i)) [0..<n]) = slice xs (d ! 0) (d ! n)"
proof (induction n)
  case 0
  then show ?case by (simp add: slice_def)
next
  case (Suc n)
  then have ih: "concat (map (\<lambda>i. slice xs (d ! i) (d ! Suc i)) [0..<n]) = slice xs (d ! 0) (d ! n)"
    by simp
  have "d ! 0 \<le> d ! n" using steps_mono [of n d n] Suc.prems by simp
  moreover have "d ! n \<le> d ! Suc n" using Suc.prems by simp
  ultimately show ?case using ih by (simp add: slice_append)
qed

lemma length_section_sizes:
  "0 < W \<Longrightarrow> length (section_sizes_of N W) = Suc W"
  by (simp add: section_sizes_of_def)

lemma sum_section_sizes:
  assumes "0 < W"
  shows "sum_list (section_sizes_of N W) = N"
proof -
  have "N mod W \<le> W" using assms by simp
  then have "(N mod W) * (N div W + 1) + (W - N mod W) * (N div W) = W * (N div W) + N mod W"
    by (simp add: algebra_simps diff_mult_distrib)
  then show ?thesis
    by (simp add: section_sizes_of_def sum_list_replicate)
qed

lemma array_split_unfold:
  "0 < W \<Longrightarrow>
   array_split ary W =
     Inr (map (\<lambda>i. slice ary (cumsum (section_sizes_of (length ary) W) ! i)
                             (cumsum (section_sizes_of (length ary) W) ! Suc i)) [0..<W])"
  by (simp add: array_split_def Let_def)

lemma div_points_nth:
  "0 < W \<Longrightarrow> i \<le> W \<Longrightarrow>
   cumsum (section_sizes_of N W) ! i = sum_list (take (Suc i) (section_sizes_of N W))"
  using cumsum_from_nth [of i "section_sizes_of N W" 0]
  by (simp add: cumsum_def length_section_sizes)

lemma div_points_0: "0 < W \<Longrightarrow> cumsum (section_sizes_of N W) ! 0 = 0"
  by (simp add: div_points_nth) (simp add: section_sizes_of_def)

lemma div_points_last: "0 < W \<Longrightarrow> cumsum (section_sizes_of N W) ! W = N"
  by (simp add: div_points_nth length_section_sizes sum_section_sizes)

lemma div_points_step:
  assumes "0 < W" "i < W"
  shows "cumsum (section_sizes_of N W) ! Suc i =
         cumsum (section_sizes_of N W) ! i + section_sizes_of N W ! Suc i"
proof -
  have "Suc i < length (section_sizes_of N W)"
    using assms by (simp add: length_section_sizes)
  then have "take (Suc (Suc i)) (section_sizes_of N W) =
             take (Suc i) (section_sizes_of N W) @ [section_sizes_of N W ! Suc i]"
    by (rule take_Suc_conv_app_nth)
  then show ?thesis using assms by (simp add: div_points_nth)
qed

lemma div_points_mono_step:
  "0 < W \<Longrightarrow>
   \<forall>i<W. cumsum (section_sizes_of N W) ! i \<le> cumsum (section_sizes_of N W) ! Suc i"
  by (simp add: div_points_step)

lemma div_points_mono:
  assumes "0 < W" "i \<le> j" "j \<le> W"
  shows "cumsum (section_sizes_of N W) ! i \<le> cumsum (section_sizes_of N W) ! j"
  using assms(2,3)
proof (induction j)
  case 0
  then show ?case by simp
next
  case (Suc j)
  show ?case
  proof (cases "i = Suc j")
    case True
    then show ?thesis by simp
  next
    case False
    with Suc have "cumsum (section_sizes_of N W) ! i \<le> cumsum (section_sizes_of N W) ! j"
      by simp
    moreover have "cumsum (section_sizes_of N W) ! j \<le> cumsum (section_sizes_of N W) ! Suc j"
      using div_points_step [OF assms(1), of j N] Suc.prems by simp
    ultimately show ?thesis by simp
  qed
qed

lemma array_split_concat:
  assumes "0 < W"
  shows "\<exists>groups. array_split ary W = Inr groups \<and> length groups = W \<and> concat groups = ary"
proof -
  let ?d = "cumsum (section_sizes_of (length ary) W)"
  have "concat (map (\<lambda>i. slice ary (?d ! i) (?d ! Suc i)) [0..<W]) = slice ary (?d ! 0) (?d ! W)"
    by (rule concat_slices) (rule div_points_mono_step [OF assms])
  also have "\<dots> = ary"
    using assms by (simp add: div_points_0 div_points_last slice_def)
  finally show ?thesis
    using assms by (simp add: array_split_unfold)
qed

lemma slice_upt:
  "a \<le> b \<Longrightarrow> b \<le> n \<Longrightarrow> slice [0..<n] a b = [a..<b]"
  by (simp add: slice_def take_upt)

section \<open>The partition of the cells\<close>

lemma section_sizes_pos:
  assumes "0 < W" "W \<le> N" "i < W"
  shows "0 < section_sizes_of N W ! Suc i"
proof -
  have "0 < N div W" using assms by (simp add: div_greater_zero_iff)
  then show ?thesis
    using assms by (simp add: section_sizes_of_def nth_append)
qed

lemma array_split_nth:
  assumes "0 < W" "array_split [0..<N] W = Inr groups" "i < W"
  shows "groups ! i = [cumsum (section_sizes_of N W) ! i..<cumsum (section_sizes_of N W) ! Suc i]"
proof -
  let ?d = "cumsum (section_sizes_of N W)"
  have g: "groups = map (\<lambda>i. slice [0..<N] (?d ! i) (?d ! Suc i)) [0..<W]"
    using assms(1,2) by (simp add: array_split_unfold)
  have "?d ! i \<le> ?d ! Suc i"
    using div_points_mono [OF assms(1), of i "Suc i" N] assms(3) by simp
  moreover have "?d ! Suc i \<le> N"
    using div_points_mono [OF assms(1), of "Suc i" W N] assms(3) div_points_last [OF assms(1), of N]
    by simp
  ultimately show ?thesis
    using assms(3) g by (simp add: slice_upt)
qed

lemma distinct_concat_disjoint:
  "distinct (concat xs) \<Longrightarrow> i < j \<Longrightarrow> j < length xs \<Longrightarrow> set (xs ! i) \<inter> set (xs ! j) = {}"
proof (induction xs arbitrary: i j)
  case Nil
  then show ?case by simp
next
  case (Cons x xs)
  show ?case
  proof (cases i)
    case 0
    with Cons.prems obtain j' where j': "j = Suc j'" "j' < length xs"
      by (cases j) auto
    then have "xs ! j' \<in> set xs" by simp
    then have "set (xs ! j') \<subseteq> set (concat xs)" by auto
    with Cons.prems(1) 0 j' show ?thesis by auto
  next
    case (Suc i')
    with Cons.prems obtain j' where j': "j = Suc j'" "j' < length xs" "i' < j'"
      by (cases j) auto
    with Cons.IH [of i' j'] Cons.prems(1) Suc show ?thesis by simp
  qed
qed

lemma sum_list_length_concat: "sum_list (map length xs) = length (concat xs)"
  by (induction xs) auto

text \<open>
  Claim C4. \<^verbatim>\<open>split_models\<close> of the Ray and of the Dask manager, for \<open>N\<close> cells and
  \<open>W\<close> workers with \<open>0 < W \<le> N\<close>: the call returns, the partition map has \<open>W\<close>
  groups, every group is a run of consecutive indices and is not empty, the groups
  are pairwise disjoint, their concatenation in order is \<open>0, \<dots>, N - 1\<close>, each index
  once, and the sizes kept in \<^verbatim>\<open>spm_per_worker\<close> sum to \<open>N\<close>.
\<close>

theorem split_models_partition:
  assumes "0 < W" "W \<le> N" "backend self \<noteq> Casadi"
  shows "\<exists>self'. split_models self N W h = Inr self'
           \<and> length (split_index self') = W
           \<and> concat (split_index self') = [0..<N]
           \<and> distinct (concat (split_index self'))
           \<and> (\<forall>i<W. \<exists>a b. a < b \<and> split_index self' ! i = [a..<b])
           \<and> (\<forall>i j. i < j \<and> j < W \<longrightarrow> set (split_index self' ! i) \<inter> set (split_index self' ! j) = {})
           \<and> spm_per_worker self' = map length (split_index self')
           \<and> sum_list (spm_per_worker self') = N"
proof -
  obtain hs where hs: "array_split h W = Inr hs"
    using array_split_concat [OF assms(1), of h] by blast
  obtain si where si: "array_split [0..<N] W = Inr si" "length si = W" "concat si = [0..<N]"
    using array_split_concat [OF assms(1), of "[0..<N]"] by blast
  let ?self' = "self\<lparr>htc := hs, split_index := si, spm_per_worker := map length si\<rparr>"
  have res: "split_models self N W h = Inr ?self'"
    using assms(3) hs si(1) by (cases "backend self") (simp_all add: split_models_def arange_def)
  have dist: "distinct (concat si)" using si(3) by simp
  have runs: "\<forall>i<W. \<exists>a b. a < b \<and> si ! i = [a..<b]"
  proof (intro allI impI)
    fix i assume i: "i < W"
    let ?d = "cumsum (section_sizes_of N W)"
    have "si ! i = [?d ! i..<?d ! Suc i]"
      by (rule array_split_nth [OF assms(1) si(1) i])
    moreover have "?d ! i < ?d ! Suc i"
      using div_points_step [OF assms(1) i, of N] section_sizes_pos [OF assms(1,2) i] by simp
    ultimately show "\<exists>a b. a < b \<and> si ! i = [a..<b]" by blast
  qed
  have disj: "\<forall>i j. i < j \<and> j < W \<longrightarrow> set (si ! i) \<inter> set (si ! j) = {}"
    using distinct_concat_disjoint [OF dist] si(2) by blast
  have total: "sum_list (map length si) = N"
    using si(3) by (simp add: sum_list_length_concat)
  show ?thesis
    using res si(2,3) dist runs disj total by simp
qed

theorem split_models_partition_witness:
  "\<exists>self'. split_models (manager_init Ray :: unit manager) 5 2 [1, 2, 3, 4, 5] = Inr self'
      \<and> split_index self' = [[0, 1, 2], [3, 4]]
      \<and> spm_per_worker self' = [3, 2]"
proof -
  have b: "backend (manager_init Ray :: unit manager) \<noteq> Casadi"
    by (simp add: manager_init_def)
  from split_models_partition [of 2 5 "manager_init Ray :: unit manager" "[1, 2, 3, 4, 5]", OF _ _ b]
  obtain self' where s: "split_models (manager_init Ray :: unit manager) 5 2 [1, 2, 3, 4, 5] = Inr self'"
    by auto
  have a1: "array_split (arange 5) 2 = Inr [[0, 1, 2], [3, 4]]"
    by code_simp
  have a2: "array_split [1, 2, 3, 4, 5 :: real] 2 = Inr [[1, 2, 3], [4, 5]]"
    by code_simp
  have "split_index self' = [[0, 1, 2], [3, 4]] \<and> spm_per_worker self' = [3, 2]"
    using s by (auto simp add: split_models_def manager_init_def a1 a2)
  with s show ?thesis by blast
qed

section \<open>The event detector\<close>

lemma np_any_iff: "np_any M \<longleftrightarrow> (\<exists>e c. e < length M \<and> c < length (M ! e) \<and> M ! e ! c)"
proof
  assume "np_any M"
  then obtain row where "row \<in> set M" "\<exists>b\<in>set row. b"
    by (auto simp add: np_any_def list_ex_iff)
  then obtain e c where "e < length M" "M ! e = row" "c < length row" "row ! c"
    by (metis in_set_conv_nth)
  then show "\<exists>e c. e < length M \<and> c < length (M ! e) \<and> M ! e ! c" by blast
next
  assume "\<exists>e c. e < length M \<and> c < length (M ! e) \<and> M ! e ! c"
  then obtain e c where ec: "e < length M" "c < length (M ! e)" "M ! e ! c" by blast
  have "M ! e \<in> set M" using ec(1) by (rule nth_mem)
  moreover have "M ! e ! c \<in> set (M ! e)" using ec(2) by (rule nth_mem)
  ultimately show "np_any M"
    unfolding np_any_def list_ex_iff using ec(3) by blast
qed

lemma same_shape_length: "same_shape A B \<Longrightarrow> length A = length B"
  unfolding same_shape_def by (rule map_eq_imp_length_eq)

lemma same_shape_row: "same_shape A B \<Longrightarrow> e < length B \<Longrightarrow> length (A ! e) = length (B ! e)"
proof -
  assume s: "same_shape A B" and e: "e < length B"
  have "length A = length B" using s by (rule same_shape_length)
  with e have "map length A ! e = length (A ! e)" "map length B ! e = length (B ! e)" by simp_all
  with s show ?thesis by (simp add: same_shape_def)
qed

lemma sign_change_nth:
  assumes "same_shape previous current" "e < length current" "c < length (current ! e)"
  shows "map2 (map2 (\<lambda>old new. old * new < 0)) (map (map sgn) previous) (map (map sgn) current) ! e ! c
         = crossing previous current e c"
  using assms same_shape_length [OF assms(1)] same_shape_row [OF assms(1,2)]
  by (simp add: crossing_def)

lemma sign_change_shape:
  assumes "same_shape previous current"
  shows "length (map2 (map2 (\<lambda>old new. (old :: real) * new < 0))
                  (map (map sgn) previous) (map (map sgn) current)) = length current"
    and "e < length current \<Longrightarrow>
         length (map2 (map2 (\<lambda>old new. (old :: real) * new < 0))
                  (map (map sgn) previous) (map (map sgn) current) ! e) = length (current ! e)"
  using same_shape_length [OF assms] same_shape_row [OF assms]
  by simp_all

lemma check_events_first:
  "last_events self = None \<Longrightarrow>
   check_events self = (self\<lparr>last_events := Some (events_eval self)\<rparr>, False)"
  by (simp add: check_events_def)

lemma check_events_later:
  "last_events self = Some previous \<Longrightarrow>
   check_events self =
     (self\<lparr>event_change := Some (map2 (map2 (\<lambda>old new. old * new < 0))
                                    (map (map sgn) previous) (map (map sgn) (events_eval self))),
            last_events := Some (events_eval self)\<rparr>,
      np_any (map2 (map2 (\<lambda>old new. old * new < 0))
                (map (map sgn) previous) (map (map sgn) (events_eval self))))"
  by (simp add: check_events_def Let_def)

lemma check_events_last: "last_events (fst (check_events self)) = Some (events_eval self)"
  by (cases "last_events self") (simp_all add: check_events_first check_events_later)

lemma check_events_any:
  assumes "last_events self = Some previous" "same_shape previous (events_eval self)"
  shows "snd (check_events self)
         \<longleftrightarrow> (\<exists>e c. e < length (events_eval self) \<and> c < length (events_eval self ! e)
                    \<and> crossing previous (events_eval self) e c)"
proof -
  let ?M = "map2 (map2 (\<lambda>old new. (old :: real) * new < 0))
              (map (map sgn) previous) (map (map sgn) (events_eval self))"
  have "snd (check_events self) = np_any ?M"
    using assms(1) by (simp add: check_events_later)
  also have "\<dots> \<longleftrightarrow> (\<exists>e c. e < length ?M \<and> c < length (?M ! e) \<and> ?M ! e ! c)"
    by (rule np_any_iff)
  also have "\<dots> \<longleftrightarrow> (\<exists>e c. e < length (events_eval self) \<and> c < length (events_eval self ! e)
                    \<and> crossing previous (events_eval self) e c)"
    using sign_change_shape [OF assms(2)] sign_change_nth [OF assms(2)] by metis
  finally show ?thesis .
qed

lemma check_events_matrix:
  assumes "last_events self = Some previous" "same_shape previous (events_eval self)"
  shows "\<exists>change. event_change (fst (check_events self)) = Some change
           \<and> same_shape change (events_eval self)
           \<and> (\<forall>e c. e < length (events_eval self) \<and> c < length (events_eval self ! e)
                 \<longrightarrow> change ! e ! c = crossing previous (events_eval self) e c)"
proof -
  let ?M = "map2 (map2 (\<lambda>old new. (old :: real) * new < 0))
              (map (map sgn) previous) (map (map sgn) (events_eval self))"
  have 1: "event_change (fst (check_events self)) = Some ?M"
    using assms(1) by (simp add: check_events_later)
  have 2: "length ?M = length (events_eval self)"
    by (rule sign_change_shape(1) [OF assms(2)])
  have "\<forall>e<length (events_eval self). map length ?M ! e = map length (events_eval self) ! e"
    using sign_change_shape(2) [OF assms(2)] 2 by simp
  then have "map length ?M = map length (events_eval self)"
    using 2 by (intro nth_equalityI) simp_all
  then have 3: "same_shape ?M (events_eval self)"
    by (simp add: same_shape_def)
  have 4: "\<forall>e c. e < length (events_eval self) \<and> c < length (events_eval self ! e)
             \<longrightarrow> ?M ! e ! c = crossing previous (events_eval self) e c"
    using sign_change_nth [OF assms(2)] by blast
  from 1 3 4 show ?thesis by blast
qed

text \<open>
  Claim C2. A worker leaves \<^verbatim>\<open>setup\<close> with no event vector recorded. A call of
  \<^verbatim>\<open>check_events\<close> with none recorded (the first call) reports no event. A call
  with the vector \<open>previous\<close> recorded (every later call), of the shape of the current
  one, reports an event if and only if \<open>sgn previous * sgn current < 0\<close> at some
  entry \<open>[e, c]\<close>, and the matrix it keeps in \<^verbatim>\<open>event_change\<close> holds exactly these
  entries. After every call the recorded vector is the current one.
\<close>

theorem check_events_spec:
  "(\<forall>env a0 n i0 h0 names np a.
       actor_setup env a0 n i0 h0 names np = Inr (a :: 'sol generic_actor) \<longrightarrow> last_events a = None)
   \<and> (last_events (self :: 'sol generic_actor) = None \<longrightarrow> \<not> snd (check_events self))
   \<and> (\<forall>previous. last_events self = Some previous \<and> same_shape previous (events_eval self) \<longrightarrow>
        (snd (check_events self)
           \<longleftrightarrow> (\<exists>e c. e < length (events_eval self) \<and> c < length (events_eval self ! e)
                      \<and> sgn (previous ! e ! c) * sgn (events_eval self ! e ! c) < 0))
        \<and> (\<exists>change. event_change (fst (check_events self)) = Some change
              \<and> same_shape change (events_eval self)
              \<and> (\<forall>e c. e < length (events_eval self) \<and> c < length (events_eval self ! e)
                    \<longrightarrow> change ! e ! c
                        = (sgn (previous ! e ! c) * sgn (events_eval self ! e ! c) < 0))))
   \<and> last_events (fst (check_events self)) = Some (events_eval self)"
proof (intro conjI allI impI)
  fix env :: "'sol collaborators" and a0 a :: "'sol generic_actor" and n i0 h0 names np
  assume "actor_setup env a0 n i0 h0 names np = Inr a"
  then show "last_events a = None"
    by (auto simp add: actor_setup_def split: sum.splits)
next
  assume "last_events self = None"
  then show "\<not> snd (check_events self)" by (simp add: check_events_first)
next
  fix previous
  assume "last_events self = Some previous \<and> same_shape previous (events_eval self)"
  then show "snd (check_events self)
           \<longleftrightarrow> (\<exists>e c. e < length (events_eval self) \<and> c < length (events_eval self ! e)
                      \<and> sgn (previous ! e ! c) * sgn (events_eval self ! e ! c) < 0)"
    using check_events_any [of self previous] by (simp add: crossing_def)
next
  fix previous
  assume "last_events self = Some previous \<and> same_shape previous (events_eval self)"
  then show "\<exists>change. event_change (fst (check_events self)) = Some change
              \<and> same_shape change (events_eval self)
              \<and> (\<forall>e c. e < length (events_eval self) \<and> c < length (events_eval self ! e)
                    \<longrightarrow> change ! e ! c
                        = (sgn (previous ! e ! c) * sgn (events_eval self ! e ! c) < 0))"
    using check_events_matrix [of self previous] by (simp add: crossing_def)
next
  show "last_events (fst (check_events self)) = Some (events_eval self)"
    by (rule check_events_last)
qed

theorem check_events_spec_witness:
  "last_events \<lparr>step_solutions = None :: unit option, var_eval = [], events_eval = [[- 1, - 1]],
                 event_names = [''cutoff''], last_events = Some [[1, - 1]],
                 event_change = None\<rparr> = Some [[1, - 1]]
   \<and> same_shape [[1, - 1 :: real]] [[- 1, - 1 :: real]]
   \<and> snd (check_events \<lparr>step_solutions = None :: unit option, var_eval = [],
                          events_eval = [[- 1, - 1]], event_names = [''cutoff''],
                          last_events = Some [[1, - 1]], event_change = None\<rparr>)
   \<and> last_events (fst (check_events \<lparr>step_solutions = None :: unit option, var_eval = [],
                          events_eval = [[- 1, - 1]], event_names = [''cutoff''],
                          last_events = Some [[1, - 1]], event_change = None\<rparr>))
       = Some [[- 1, - 1]]"
proof -
  let ?a = "\<lparr>step_solutions = None :: unit option, var_eval = [], events_eval = [[- 1, - 1]],
             event_names = [''cutoff''], last_events = Some [[1, - 1]], event_change = None\<rparr>"
  have shape: "same_shape [[1, - 1 :: real]] [[- 1, - 1 :: real]]"
    by (simp add: same_shape_def)
  have hyp: "last_events ?a = Some [[1, - 1]] \<and> same_shape [[1, - 1 :: real]] (events_eval ?a)"
    using shape by simp
  have "(0::nat) < length (events_eval ?a) \<and> (0::nat) < length (events_eval ?a ! 0)
         \<and> sgn ([[1, - 1 :: real]] ! 0 ! 0) * sgn (events_eval ?a ! 0 ! 0) < 0"
    by simp
  then have ex: "\<exists>e c. e < length (events_eval ?a) \<and> c < length (events_eval ?a ! e)
         \<and> sgn ([[1, - 1 :: real]] ! e ! c) * sgn (events_eval ?a ! e ! c) < 0"
    by blast
  from check_events_spec [of ?a] hyp ex have "snd (check_events ?a)"
    by blast
  moreover from check_events_spec [of ?a]
  have "last_events (fst (check_events ?a)) = Some (events_eval ?a)"
    by blast
  ultimately show ?thesis using shape by simp
qed

section \<open>Writing the netlist\<close>

lemma assign_rows_length [simp]: "length (assign_rows msk vs nl) = length nl"
  by (induction msk vs nl rule: assign_rows.induct) simp_all

lemma assign_rows_frame:
  "map desc (assign_rows msk vs nl) = map desc nl
   \<and> map node1 (assign_rows msk vs nl) = map node1 nl
   \<and> map node2 (assign_rows msk vs nl) = map node2 nl"
  by (induction msk vs nl rule: assign_rows.induct) simp_all

lemma loc_set_scalar_length [simp]: "length (loc_set_scalar msk v nl) = length nl"
  by (induction msk v nl rule: loc_set_scalar.induct) simp_all

lemma loc_set_scalar_frame:
  "map desc (loc_set_scalar msk v nl) = map desc nl
   \<and> map node1 (loc_set_scalar msk v nl) = map node1 nl
   \<and> map node2 (loc_set_scalar msk v nl) = map node2 nl"
  by (induction msk v nl rule: loc_set_scalar.induct) simp_all

lemma select_assign_rows:
  "length (filter (\<lambda>b. b) msk) = length vs \<Longrightarrow> length msk = length nl \<Longrightarrow>
   map val (select_rows msk (assign_rows msk vs nl)) = vs"
  by (induction msk vs nl rule: assign_rows.induct) simp_all

lemma select_loc_set_scalar:
  "list_all (\<lambda>(a, b). \<not> (a \<and> b)) (zip msk other) \<Longrightarrow>
   select_rows msk (loc_set_scalar other v nl) = select_rows msk nl"
proof (induction other v nl arbitrary: msk rule: loc_set_scalar.induct)
  case (1 b bs v r rs)
  then show ?case by (cases msk) auto
qed simp_all

lemma loc_set_values_Inr:
  "loc_set_values msk vs nl = Inr nl' \<Longrightarrow>
   length (filter (\<lambda>b. b) msk) = length vs \<and> nl' = assign_rows msk vs nl"
  by (simp add: loc_set_values_def split: if_splits)

lemma update_netlist_Inr:
  assumes "update_netlist l temp_ocv temp_Ri setpoint nl = Inr nl'"
  shows "length (filter (\<lambda>b. b) (V_map l)) = length temp_ocv
         \<and> length (filter (\<lambda>b. b) (Ri_map l)) = length temp_Ri
         \<and> nl' = loc_set_scalar (I_map l) setpoint
                   (assign_rows (Ri_map l) temp_Ri (assign_rows (V_map l) temp_ocv nl))"
  using assms
  by (auto simp add: update_netlist_def dest!: loc_set_values_Inr split: sum.splits)

lemma derive_Ri_length:
  "length (derive_Ri temp_ocv temp_v i_app)
   = min (min (length temp_ocv) (length temp_v)) (length i_app)"
  by (simp add: derive_Ri_def masked_assign_def Let_def)


lemma read_step_Inr:
  "read_step self l = Inr (temp_v, temp_ocv, i_app) \<Longrightarrow>
   1 < length (output_buffer self) \<and> step l < length (output_buffer self ! 0)
   \<and> step l < length (output_buffer self ! 1) \<and> step l < length (shm_i_app self)
   \<and> temp_v = output_buffer self ! 0 ! step l
   \<and> temp_ocv = output_buffer self ! 1 ! step l
   \<and> i_app = shm_i_app self ! step l"
  by (auto simp add: read_step_def get_def split: if_splits)

lemma update_circuit_Inr:
  assumes "update_circuit env self l0 = Inr (self', l', stop)"
  obtains temp_v temp_ocv i_app setpoint nl l1 A where
    "read_step self l0 = Inr (temp_v, temp_ocv, i_app)"
    "get (protocol l0) (step l0) = Inr setpoint"
    "update_netlist l0 temp_ocv (derive_Ri temp_ocv temp_v i_app) setpoint (netlist self) = Inr nl"
    "resolve_circuit env nl (l0\<lparr>time := fl64 (time l0 + dt self)\<rparr>) = Inr l1"
    "next_currents (shm_i_app self) l1 = Inr A"
    "(self', l', stop) = check_cutoffs (self\<lparr>netlist := nl, shm_i_app := A\<rparr>) l1 temp_v"
proof -
  have rs: "read_step self (l0\<lparr>time := fl64 (time l0 + dt self)\<rparr>) = read_step self l0"
    by (simp add: read_step_def cong: sum.case_cong)
  have un: "\<And>a b c d. update_netlist (l0\<lparr>time := fl64 (time l0 + dt self)\<rparr>) a b c d = update_netlist l0 a b c d"
    by (simp add: update_netlist_def cong: sum.case_cong)
  from assms show ?thesis
    by (auto simp add: update_circuit_def Let_def rs un intro!: that split: sum.splits prod.splits)
qed



section \<open>The frame of the netlist\<close>

lemma topology_assign_rows [simp]: "topology (assign_rows msk vs nl) = topology nl"
  unfolding topology_def by (induction msk vs nl rule: assign_rows.induct) simp_all

lemma topology_loc_set_scalar [simp]: "topology (loc_set_scalar msk v nl) = topology nl"
  unfolding topology_def by (induction msk v nl rule: loc_set_scalar.induct) simp_all

lemma topology_length: "topology a = topology b \<Longrightarrow> length a = length b"
  unfolding topology_def by (rule map_eq_imp_length_eq)

lemma update_netlist_topology:
  "update_netlist l temp_ocv temp_Ri setpoint nl = Inr nl' \<Longrightarrow> topology nl' = topology nl"
  by (auto dest!: update_netlist_Inr)

lemma update_netlist_topology_error:
  "update_netlist l temp_ocv temp_Ri setpoint nl = Inl (e, nl') \<Longrightarrow> topology nl' = topology nl"
  by (auto simp add: update_netlist_def dest!: loc_set_values_Inr split: sum.splits)

lemma split_models_netlist:
  "split_models self N np h = Inr self' \<Longrightarrow> netlist self' = netlist self"
  "split_models self N np h = Inl (e, self') \<Longrightarrow> netlist self' = netlist self"
  by (auto simp add: split_models_def Let_def split: backend.splits sum.splits)

lemma setup_actors_netlist:
  "setup_actors env self np I_init htc_init = Inr self' \<Longrightarrow> netlist self' = netlist self"
  "setup_actors env self np I_init htc_init = Inl (e, self') \<Longrightarrow> netlist self' = netlist self"
  by (auto simp add: setup_actors_def Let_def split: backend.splits sum.splits)

lemma step_actors_netlist:
  "step_actors env self = Inr self' \<Longrightarrow> netlist self' = netlist self"
  "step_actors env self = Inl (e, self') \<Longrightarrow> netlist self' = netlist self"
  by (auto simp add: step_actors_def Let_def
      split: backend.splits sum.splits option.splits if_splits prod.splits)

lemma get_actor_output_netlist:
  "get_actor_output self st = Inr self' \<Longrightarrow> netlist self' = netlist self"
  "get_actor_output self st = Inl (e, self') \<Longrightarrow> netlist self' = netlist self"
  by (auto simp add: get_actor_output_def split: backend.splits sum.splits option.splits)

lemma cleanup_netlist:
  "cleanup env self = Inr self' \<Longrightarrow> netlist self' = netlist self"
  "cleanup env self = Inl (e, self') \<Longrightarrow> netlist self' = netlist self"
  by (auto simp add: cleanup_def Let_def split: backend.splits sum.splits option.splits)

lemma check_cutoffs_netlist:
  "check_cutoffs self l temp_v = (self', l', stop) \<Longrightarrow> netlist self' = netlist self"
  by (auto simp add: check_cutoffs_def split: if_splits)

lemma update_circuit_topology:
  "update_circuit env self l = Inr (self', l', stop) \<Longrightarrow>
   topology (netlist self') = topology (netlist self)"
  "update_circuit env self l = Inl (e, self') \<Longrightarrow>
   topology (netlist self') = topology (netlist self)"
proof -
  assume "update_circuit env self l = Inr (self', l', stop)"
  then obtain temp_v temp_ocv i_app setpoint nl l1 A where
    u: "update_netlist l temp_ocv (derive_Ri temp_ocv temp_v i_app) setpoint (netlist self) = Inr nl"
    and c: "(self', l', stop) = check_cutoffs (self\<lparr>netlist := nl, shm_i_app := A\<rparr>) l1 temp_v"
    by (rule update_circuit_Inr)
  have "netlist self' = nl"
    using check_cutoffs_netlist [OF c [symmetric]] by simp
  then show "topology (netlist self') = topology (netlist self)"
    using update_netlist_topology [OF u] by simp
next
  assume "update_circuit env self l = Inl (e, self')"
  then show "topology (netlist self') = topology (netlist self)"
    by (auto simp add: update_circuit_def Let_def
        dest!: update_netlist_topology update_netlist_topology_error
        split: sum.splits prod.splits)
qed

lemma solve_step_topology:
  "solve_step env self l = Inr (self', l', stop) \<Longrightarrow>
   topology (netlist self') = topology (netlist self)"
  "solve_step env self l = Inl (e, self') \<Longrightarrow>
   topology (netlist self') = topology (netlist self)"
  by (auto simp add: solve_step_def
      dest!: step_actors_netlist get_actor_output_netlist update_circuit_topology
      split: sum.splits)

lemma solve_loop_topology:
  "solve_loop env ks (self, l) = Inr (self', l') \<Longrightarrow>
   topology (netlist self') = topology (netlist self)"
  "solve_loop env ks (self, l) = Inl (e, self') \<Longrightarrow>
   topology (netlist self') = topology (netlist self)"
proof (induction ks arbitrary: self l)
  case Nil
  { case 1 then show ?case by simp }
  { case 2 then show ?case by simp }
next
  case (Cons k ks)
  { case 1
    then show ?case
      using Cons.IH(1) solve_step_topology(1) [of env self "l\<lparr>step := k\<rparr>"]
      by (fastforce split: sum.splits prod.splits if_splits) }
  { case 2
    then show ?case
      using Cons.IH(2) solve_step_topology [of env self "l\<lparr>step := k\<rparr>"]
      by (fastforce split: sum.splits prod.splits if_splits) }
qed

lemma solve_init_netlist:
  "solve_init env self args = Inr (self', l) \<Longrightarrow> netlist self' = arg_netlist args"
  "solve_init env self args = Inl (e, self') \<Longrightarrow> netlist self' = arg_netlist args"
  by (auto simp add: solve_init_def Let_def
      dest!: split_models_netlist setup_actors_netlist
      split: sum.splits prod.splits option.splits)

lemma assign_rows_untouched:
  "k < length nl \<Longrightarrow> (k < length msk \<longrightarrow> \<not> msk ! k) \<Longrightarrow> assign_rows msk vs nl ! k = nl ! k"
proof (induction msk vs nl arbitrary: k rule: assign_rows.induct)
  case (1 bs v vs r rs)
  then show ?case by (cases k) auto
next
  case (2 bs vs r rs)
  then show ?case by (cases k) auto
qed simp_all

lemma loc_set_scalar_untouched:
  "k < length nl \<Longrightarrow> (k < length msk \<longrightarrow> \<not> msk ! k) \<Longrightarrow> loc_set_scalar msk v nl ! k = nl ! k"
proof (induction msk v nl arbitrary: k rule: loc_set_scalar.induct)
  case (1 b bs v r rs)
  then show ?case by (cases k) auto
qed simp_all

lemma loc_set_scalar_selected:
  "k < length nl \<Longrightarrow> k < length msk \<Longrightarrow> msk ! k \<Longrightarrow> val (loc_set_scalar msk v nl ! k) = v"
proof (induction msk v nl arbitrary: k rule: loc_set_scalar.induct)
  case (1 b bs v r rs)
  then show ?case by (cases k) auto
qed simp_all

lemma select_assign_other:
  "list_all (\<lambda>(a, b). \<not> (a \<and> b)) (zip msk other) \<Longrightarrow>
   select_rows msk (assign_rows other vs nl) = select_rows msk nl"
proof (induction other vs nl arbitrary: msk rule: assign_rows.induct)
  case (1 bs v vs r rs)
  then show ?case by (cases msk) auto
next
  case (2 bs vs r rs)
  then show ?case by (cases msk) auto
qed simp_all

lemma solve_topology:
  "solve env self args = Inr (out, self') \<Longrightarrow> topology (netlist self') = topology (arg_netlist args)"
  "solve env self args = Inl (e, self') \<Longrightarrow> topology (netlist self') = topology (arg_netlist args)"
proof -
  assume "solve env self args = Inr (out, self')"
  then obtain s1 l1 s2 l2 s3 where
    i: "solve_init env self args = Inr (s1, l1)" and
    lp: "solve_loop env [0..<Nsteps l1] (s1, l1) = Inr (s2, l2)" and
    c: "cleanup env (s2\<lparr>logged := logged s2 @ [Notice ''Step solve finished'']\<rparr>) = Inr s3" and
    o: "self' = s3\<lparr>all_output := out\<rparr>"
    by (auto simp add: solve_def Let_def split: sum.splits prod.splits)
  show "topology (netlist self') = topology (arg_netlist args)"
    using solve_init_netlist(1) [OF i] solve_loop_topology(1) [OF lp] cleanup_netlist(1) [OF c] o
    by simp
next
  assume "solve env self args = Inl (e, self')"
  then consider
    (init) "solve_init env self args = Inl (e, self')"
  | (loop) s1 l1 where "solve_init env self args = Inr (s1, l1)"
      "solve_loop env [0..<Nsteps l1] (s1, l1) = Inl (e, self')"
  | (clean) s1 l1 s2 l2 where "solve_init env self args = Inr (s1, l1)"
      "solve_loop env [0..<Nsteps l1] (s1, l1) = Inr (s2, l2)"
      "cleanup env (s2\<lparr>logged := logged s2 @ [Notice ''Step solve finished'']\<rparr>) = Inl (e, self')"
  | (collect) s1 l1 s2 l2 where "solve_init env self args = Inr (s1, l1)"
      "solve_loop env [0..<Nsteps l1] (s1, l1) = Inr (s2, l2)"
      "cleanup env (s2\<lparr>logged := logged s2 @ [Notice ''Step solve finished'']\<rparr>) = Inr self'"
    by (auto simp add: solve_def Let_def split: sum.splits prod.splits)
  then show "topology (netlist self') = topology (arg_netlist args)"
  proof cases
    case init
    then show ?thesis using solve_init_netlist(2) [OF init] by simp
  next
    case loop
    then show ?thesis
      using solve_init_netlist(1) [OF loop(1)] solve_loop_topology(2) [OF loop(2)] by simp
  next
    case clean
    then show ?thesis
      using solve_init_netlist(1) [OF clean(1)] solve_loop_topology(1) [OF clean(2)]
        cleanup_netlist(2) [OF clean(3)] by simp
  next
    case collect
    then show ?thesis
      using solve_init_netlist(1) [OF collect(1)] solve_loop_topology(1) [OF collect(2)]
        cleanup_netlist(1) [OF collect(3)] by simp
  qed
qed

section \<open>The shape of the buffers\<close>

lemma scatter_length [simp]: "length (scatter row idx vals) = length row"
proof -
  have "length (fold (\<lambda>(i, v) r. r[i := v]) ps row) = length row" for ps :: "(nat \<times> real) list"
    by (induction ps arbitrary: row) auto
  then show ?thesis by (simp add: scatter_def)
qed

lemma set_row_Inr:
  "set_row A i row = Inr A' \<Longrightarrow> i < length A \<and> length row = length (A ! i) \<and> A' = A[i := row]"
  by (simp add: set_row_def split: if_splits)

lemma set_output_cells_Inr:
  assumes "set_output_cells out3 st idx out = Inr out3'"
  shows "length out3' = length out3"
    and "j < length out3 \<Longrightarrow> st < length (out3 ! j)"
    and "j < length out3 \<Longrightarrow> length (out3' ! j) = length (out3 ! j)"
    and "j < length out3 \<Longrightarrow> length (out3' ! j ! r) = length (out3 ! j ! r)"
    and "j < length out3 \<Longrightarrow> r \<noteq> st \<Longrightarrow> out3' ! j ! r = out3 ! j ! r"
proof -
  have ok: "\<not> list_ex (\<lambda>arr. length arr \<le> st \<or> list_ex (\<lambda>i. length (arr ! st) \<le> i) idx) out3"
    and len: "length out = length out3"
    and res: "out3' = map2 (\<lambda>arr vals. arr[st := scatter (arr ! st) idx vals]) out3 out"
    using assms by (auto simp add: set_output_cells_def split: if_splits)
  show "length out3' = length out3" using res len by simp
  { assume j: "j < length out3"
    then have "out3 ! j \<in> set out3" by simp
    with ok show st: "st < length (out3 ! j)" by (auto simp add: list_ex_iff)
    have nth: "out3' ! j = (out3 ! j)[st := scatter (out3 ! j ! st) idx (out ! j)]"
      using j len res by simp
    show "length (out3' ! j) = length (out3 ! j)" using nth by simp
    show "length (out3' ! j ! r) = length (out3 ! j ! r)"
      using nth st by (cases "r = st") simp_all
    show "r \<noteq> st \<Longrightarrow> out3' ! j ! r = out3 ! j ! r" using nth by simp }
qed

lemma set_output_all_Inr:
  assumes "set_output_all out3 st out = Inr out3'"
  shows "length out3' = length out3"
    and "j < length out3 \<Longrightarrow> st < length (out3 ! j)"
    and "j < length out3 \<Longrightarrow> length (out3' ! j) = length (out3 ! j)"
    and "j < length out3 \<Longrightarrow> length (out3' ! j ! r) = length (out3 ! j ! r)"
    and "j < length out3 \<Longrightarrow> r \<noteq> st \<Longrightarrow> out3' ! j ! r = out3 ! j ! r"
proof -
  have ok: "\<not> list_ex (\<lambda>arr. length arr \<le> st) out3"
    and len: "length out = length out3"
    and rows: "\<not> list_ex (\<lambda>(arr, r). length r \<noteq> length (arr ! st)) (zip out3 out)"
    and res: "out3' = map2 (\<lambda>arr vals. arr[st := vals]) out3 out"
    using assms by (auto simp add: set_output_all_def split: if_splits)
  show "length out3' = length out3" using res len by simp
  { assume j: "j < length out3"
    then have "out3 ! j \<in> set out3" by simp
    with ok show st: "st < length (out3 ! j)" by (auto simp add: list_ex_iff)
    have nth: "out3' ! j = (out3 ! j)[st := out ! j]"
      using j len res by simp
    have "(out3 ! j, out ! j) \<in> set (zip out3 out)"
      using j len by (metis in_set_zip fst_conv snd_conv)
    with rows have row: "length (out ! j) = length (out3 ! j ! st)"
      by (auto simp add: list_ex_iff)
    show "length (out3' ! j) = length (out3 ! j)" using nth by simp
    show "length (out3' ! j ! r) = length (out3 ! j ! r)"
      using nth st row by (cases "r = st") simp_all
    show "r \<noteq> st \<Longrightarrow> out3' ! j ! r = out3 ! j ! r" using nth by simp }
qed

lemma collect_each_Inr:
  "collect_each out3 st si i as = Inr out3' \<Longrightarrow>
   length out3' = length out3
   \<and> (\<forall>j<length out3. length (out3' ! j) = length (out3 ! j)
         \<and> (\<forall>r. length (out3' ! j ! r) = length (out3 ! j ! r))
         \<and> (\<forall>r. r \<noteq> st \<longrightarrow> out3' ! j ! r = out3 ! j ! r))"
proof (induction as arbitrary: out3 i)
  case Nil
  then show ?case by simp
next
  case (Cons a as)
  from Cons.prems obtain idx mid where
    s: "set_output_cells out3 st idx (actor_output a) = Inr mid" and
    c: "collect_each mid st si (Suc i) as = Inr out3'"
    by (auto split: sum.splits)
  note m = set_output_cells_Inr [OF s]
  from Cons.IH [OF c] m show ?case by simp
qed

section \<open>What a step changes\<close>

lemma step_actors_frame:
  "step_actors env self = Inr self' \<Longrightarrow>
   shm_i_app self' = shm_i_app self \<and> output_buffer self' = output_buffer self
   \<and> variable_names self' = variable_names self \<and> dt self' = dt self
   \<and> timestep self' = timestep self \<and> backend self' = backend self
   \<and> split_index self' = split_index self \<and> htc self' = htc self
   \<and> client self' = client self \<and> runtime_up self' = runtime_up self"
  by (auto simp add: step_actors_def Let_def
      split: backend.splits sum.splits option.splits if_splits prod.splits)

lemma get_actor_output_frame:
  "get_actor_output self st = Inr self' \<Longrightarrow>
   shm_i_app self' = shm_i_app self \<and> variable_names self' = variable_names self
   \<and> dt self' = dt self \<and> timestep self' = timestep self \<and> backend self' = backend self
   \<and> split_index self' = split_index self \<and> htc self' = htc self
   \<and> actors self' = actors self \<and> logged self' = logged self
   \<and> client self' = client self \<and> runtime_up self' = runtime_up self"
  by (auto simp add: get_actor_output_def split: backend.splits sum.splits option.splits)

lemma get_actor_output_rows:
  assumes "get_actor_output self st = Inr self'"
  shows "row_written st (output_buffer self) (output_buffer self')"
proof (cases "backend self = Casadi")
  case True
  with assms have "\<exists>out. set_output_all (output_buffer self) st out = Inr (output_buffer self')"
    by (auto simp add: get_actor_output_def split: sum.splits option.splits)
  then obtain out ob where "set_output_all (output_buffer self) st out = Inr ob"
    "output_buffer self' = ob" by auto
  then show ?thesis
    using set_output_all_Inr [of "output_buffer self" st out ob]
    by (simp add: row_written_def)
next
  case False
  with assms have "collect_each (output_buffer self) st (split_index self) 0 (the (actors self))
                     = Inr (output_buffer self')"
    by (auto simp add: get_actor_output_def split: backend.splits sum.splits option.splits)
  then show ?thesis
    using collect_each_Inr [of "output_buffer self" st "split_index self" 0 "the (actors self)"
        "output_buffer self'"]
    by (simp add: row_written_def)
qed

lemma resolve_circuit_Inr:
  assumes "resolve_circuit env nl l = Inr l1"
  shows "same_consts l l1 \<and> time l1 = time l
         \<and> (time l \<le> end_time l \<longrightarrow>
              record_times l1 = record_times l @ [time l]
              \<and> length (V_terminal l1) = Suc (length (V_terminal l))
              \<and> V_node l1 = fst (solve_circuit_vectorized env nl)
              \<and> I_batt l1 = snd (solve_circuit_vectorized env nl))
         \<and> (\<not> time l \<le> end_time l \<longrightarrow> l1 = l)"
  using assms
  by (auto simp add: resolve_circuit_def same_consts_def Let_def
      split: if_splits prod.splits sum.splits)

lemma next_currents_Inr:
  assumes "next_currents A l = Inr A'"
  shows "(time l < end_time l \<longrightarrow>
            Suc (step l) < length A \<and> length (I_batt l) = length (A ! Suc (step l))
            \<and> A' = A[Suc (step l) := map (\<lambda>x. x * - 1) (I_batt l)])
         \<and> (\<not> time l < end_time l \<longrightarrow> A' = A)"
  using assms by (auto simp add: next_currents_def dest!: set_row_Inr split: if_splits)

lemma next_currents_shape:
  assumes "next_currents A l = Inr A'"
  shows "length A' = length A" and "list_all (\<lambda>row. length row = n) A \<Longrightarrow> list_all (\<lambda>row. length row = n) A'"
proof -
  show "length A' = length A" using next_currents_Inr [OF assms] by (cases "time l < end_time l") auto
  assume a: "list_all (\<lambda>row. length row = n) A"
  show "list_all (\<lambda>row. length row = n) A'"
  proof (cases "time l < end_time l")
    case True
    with next_currents_Inr [OF assms]
    have s: "Suc (step l) < length A" "length (I_batt l) = length (A ! Suc (step l))"
      "A' = A[Suc (step l) := map (\<lambda>x. x * - 1) (I_batt l)]" by simp_all
    have "length (A ! Suc (step l)) = n" using a s(1) by (simp add: list_all_length)
    then show ?thesis
      using a s by (auto simp add: list_all_length nth_list_update)
  next
    case False
    with next_currents_Inr [OF assms] a show ?thesis by simp
  qed
qed

lemma check_cutoffs_eq:
  "check_cutoffs self l temp_v = (self', l', stop) \<Longrightarrow>
   l' = l \<and> (stop \<longleftrightarrow> outside (v_cut_lower l) (v_cut_higher l) temp_v)
   \<and> shm_i_app self' = shm_i_app self \<and> output_buffer self' = output_buffer self
   \<and> variable_names self' = variable_names self \<and> dt self' = dt self
   \<and> netlist self' = netlist self \<and> backend self' = backend self
   \<and> actors self' = actors self \<and> split_index self' = split_index self \<and> htc self' = htc self
   \<and> client self' = client self \<and> runtime_up self' = runtime_up self
   \<and> timestep self' = (if stop then timestep self else Suc (timestep self))"
  by (auto simp add: check_cutoffs_def outside_def split: if_splits)

lemma row_written_shaped:
  assumes "row_written st ob ob'" "length ob = nv"
    "list_all (\<lambda>arr. length arr = ns \<and> list_all (\<lambda>row. length row = n) arr) ob"
  shows "list_all (\<lambda>arr. length arr = ns \<and> list_all (\<lambda>row. length row = n) arr) ob'"
    and "length ob' = nv"
proof -
  show "length ob' = nv" using assms(1,2) by (simp add: row_written_def)
  show "list_all (\<lambda>arr. length arr = ns \<and> list_all (\<lambda>row. length row = n) arr) ob'"
    unfolding list_all_length
  proof (intro allI impI conjI)
    fix j assume "j < length ob'"
    then have j: "j < length ob" using assms(1) by (simp add: row_written_def)
    have w: "length (ob' ! j) = length (ob ! j)" "\<And>r. length (ob' ! j ! r) = length (ob ! j ! r)"
      using assms(1) j by (simp_all add: row_written_def)
    have o: "length (ob ! j) = ns" "\<And>r. r < length (ob ! j) \<Longrightarrow> length (ob ! j ! r) = n"
      using assms(3) j by (simp_all add: list_all_length)
    show "length (ob' ! j) = ns" using w o by simp
    fix r assume "r < length (ob' ! j)"
    then show "length (ob' ! j ! r) = n" using w o by simp
  qed
qed

lemma update_circuit_progress:
  assumes "update_circuit env self l = Inr (self', l', stop)" "shaped self l"
  shows "shaped self' l' \<and> same_consts l l' \<and> dt self' = dt self
         \<and> variable_names self' = variable_names self
         \<and> output_buffer self' = output_buffer self
         \<and> backend self' = backend self
         \<and> time l' = fl64 (time l + dt self)
         \<and> (stop \<longleftrightarrow> outside (v_cut_lower l) (v_cut_higher l) (output_buffer self ! 0 ! step l))
         \<and> (fl64 (time l + dt self) \<le> end_time l \<longrightarrow>
              length (record_times l') = Suc (length (record_times l))
              \<and> length (V_terminal l') = Suc (length (V_terminal l)))
         \<and> (\<not> fl64 (time l + dt self) \<le> end_time l \<longrightarrow>
              record_times l' = record_times l \<and> V_terminal l' = V_terminal l)"
proof -
  from assms(1) obtain temp_v temp_ocv i_app setpoint nl l1 A where
    r: "read_step self l = Inr (temp_v, temp_ocv, i_app)" and
    rc: "resolve_circuit env nl (l\<lparr>time := fl64 (time l + dt self)\<rparr>) = Inr l1" and
    nc: "next_currents (shm_i_app self) l1 = Inr A" and
    c: "(self', l', stop) = check_cutoffs (self\<lparr>netlist := nl, shm_i_app := A\<rparr>) l1 temp_v"
    by (rule update_circuit_Inr)
  note R = resolve_circuit_Inr [OF rc]
  note C = check_cutoffs_eq [OF c [symmetric]]
  have v: "temp_v = output_buffer self ! 0 ! step l" using read_step_Inr [OF r] by simp
  have sc: "same_consts l l1" using R by (simp add: same_consts_def)
  have l': "l' = l1" using C by simp
  have shp: "shaped self' l'"
    using assms(2) C sc next_currents_shape [OF nc] unfolding l'
    by (simp add: shaped_def same_consts_def)
  have stop: "stop \<longleftrightarrow> outside (v_cut_lower l) (v_cut_higher l) (output_buffer self ! 0 ! step l)"
    using C sc v by (simp add: same_consts_def)
  have t: "time l' = fl64 (time l + dt self)" using R l' by simp
  have rec: "fl64 (time l + dt self) \<le> end_time l \<longrightarrow>
              length (record_times l') = Suc (length (record_times l))
              \<and> length (V_terminal l') = Suc (length (V_terminal l))"
    using R l' by simp
  have norec: "\<not> fl64 (time l + dt self) \<le> end_time l \<longrightarrow>
              record_times l' = record_times l \<and> V_terminal l' = V_terminal l"
    using R l' by auto
  show ?thesis
    using shp sc l' C stop t rec norec by simp
qed

lemma solve_step_progress:
  assumes "solve_step env self l = Inr (self', l', stop)" "shaped self l"
  shows "shaped self' l' \<and> same_consts l l' \<and> dt self' = dt self
         \<and> variable_names self' = variable_names self
         \<and> backend self' = backend self
         \<and> row_written (step l) (output_buffer self) (output_buffer self')
         \<and> time l' = fl64 (time l + dt self)
         \<and> (stop \<longleftrightarrow> outside (v_cut_lower l) (v_cut_higher l) (output_buffer self' ! 0 ! step l))
         \<and> (fl64 (time l + dt self) \<le> end_time l \<longrightarrow>
              length (record_times l') = Suc (length (record_times l))
              \<and> length (V_terminal l') = Suc (length (V_terminal l)))
         \<and> (\<not> fl64 (time l + dt self) \<le> end_time l \<longrightarrow>
              record_times l' = record_times l \<and> V_terminal l' = V_terminal l)"
proof -
  from assms(1) obtain s1 s2 where
    sa: "step_actors env self = Inr s1" and
    go: "get_actor_output s1 (step l) = Inr s2" and
    uc: "update_circuit env s2 l = Inr (self', l', stop)"
    by (auto simp add: solve_step_def split: sum.splits)
  note F1 = step_actors_frame [OF sa]
  note F2 = get_actor_output_frame [OF go]
  have rw: "row_written (step l) (output_buffer self) (output_buffer s2)"
    using get_actor_output_rows [OF go] F1 by simp
  have shp2: "shaped s2 l"
    using assms(2) F1 F2 row_written_shaped [OF rw, of "Nvar l" "Nsteps l" "Nspm l"]
    by (simp add: shaped_def)
  note U = update_circuit_progress [OF uc shp2]
  show ?thesis using U F1 F2 rw by simp
qed

section \<open>The loop\<close>

lemma shaped_step [simp]: "shaped self (l\<lparr>step := k\<rparr>) = shaped self l"
  by (simp add: shaped_def)

lemma solve_loop_progress:
  assumes "solve_loop env [k..<Nsteps l] (self, l) = Inr (self', l')"
    and "loop_inv k self l" and "k < Nsteps l"
  shows "\<exists>n. k < n \<and> n \<le> Nsteps l \<and> step l' = n - 1
           \<and> shaped self' l' \<and> same_consts (l\<lparr>step := n - 1\<rparr>) l'
           \<and> variable_names self' = variable_names self
           \<and> backend self' = backend self
           \<and> (\<forall>j<n - 1. \<not> outside (v_cut_lower l) (v_cut_higher l) (output_buffer self' ! 0 ! j))
           \<and> (n < Nsteps l \<longrightarrow>
                outside (v_cut_lower l) (v_cut_higher l) (output_buffer self' ! 0 ! (n - 1)))"
  using assms
proof (induction "Nsteps l - k" arbitrary: k self l)
  case 0
  then show ?case by simp
next
  case (Suc m)
  let ?l0 = "l\<lparr>step := k\<rparr>"
  have upt: "[k..<Nsteps l] = k # [Suc k..<Nsteps l]"
    using Suc.prems(3) by (simp add: upt_conv_Cons)
  from Suc.prems(1) obtain s1 l1 stop where
    st: "solve_step env self ?l0 = Inr (s1, l1, stop)" and
    rest: "(if stop then Inr (s1, l1) else solve_loop env [Suc k..<Nsteps l] (s1, l1))
           = Inr (self', l')"
    unfolding upt by (auto split: sum.splits prod.splits)
  have inv: "shaped self l"
    "\<forall>j<k. \<not> outside (v_cut_lower l) (v_cut_higher l) (output_buffer self ! 0 ! j)"
    using Suc.prems(2) by (simp_all add: loop_inv_def)
  have sh0: "shaped self ?l0" using inv(1) by simp
  note P = solve_step_progress [OF st sh0]
  have sc: "same_consts ?l0 l1" using P by simp
  have cst: "Nsteps l1 = Nsteps l" "v_cut_lower l1 = v_cut_lower l"
    "v_cut_higher l1 = v_cut_higher l" "end_time l1 = end_time l" "step l1 = k"
    using sc by (simp_all add: same_consts_def)
  have rw: "row_written k (output_buffer self) (output_buffer s1)" using P by simp
  have nv: "0 < length (output_buffer self)" using inv(1) by (simp add: shaped_def)
  have keep: "j \<noteq> k \<Longrightarrow> output_buffer s1 ! 0 ! j = output_buffer self ! 0 ! j" for j
    using rw nv by (simp add: row_written_def)
  have before: "\<forall>j<k. \<not> outside (v_cut_lower l) (v_cut_higher l) (output_buffer s1 ! 0 ! j)"
    using inv(2) keep by simp
  have stop_iff: "stop \<longleftrightarrow> outside (v_cut_lower l) (v_cut_higher l) (output_buffer s1 ! 0 ! k)"
    using P by simp
  show ?case
  proof (cases "stop \<or> Suc k = Nsteps l")
    case True
    then have res: "self' = s1" "l' = l1" using rest by (auto split: if_splits)
    have last: "Suc k < Nsteps l \<longrightarrow>
        outside (v_cut_lower l) (v_cut_higher l) (output_buffer s1 ! 0 ! k)"
      using True stop_iff by auto
    have sc': "same_consts (l\<lparr>step := Suc k - 1\<rparr>) l1" using sc by simp
    show ?thesis
      apply (rule exI [of _ "Suc k"])
      using Suc.prems(3) P before last sc' cst unfolding res by simp
  next
    case False
    then have nstop: "\<not> stop" and more: "Suc k < Nsteps l" using Suc.prems(3) by auto
    from rest nstop cst have lp: "solve_loop env [Suc k..<Nsteps l1] (s1, l1) = Inr (self', l')"
      by simp
    have inv1: "loop_inv (Suc k) s1 l1"
      unfolding loop_inv_def
      using P cst before stop_iff nstop
      by (auto simp add: less_Suc_eq)
    have m: "m = Nsteps l1 - Suc k" using Suc.hyps(2) cst by simp
    from Suc.hyps(1) [OF m lp inv1] more cst
    obtain n where n: "Suc k < n" "n \<le> Nsteps l" "step l' = n - 1" "shaped self' l'"
      "same_consts (l1\<lparr>step := n - 1\<rparr>) l'" "variable_names self' = variable_names s1"
      "backend self' = backend s1"
      "\<forall>j<n - 1. \<not> outside (v_cut_lower l) (v_cut_higher l) (output_buffer self' ! 0 ! j)"
      "n < Nsteps l \<longrightarrow> outside (v_cut_lower l) (v_cut_higher l) (output_buffer self' ! 0 ! (n - 1))"
      by auto
    have sc': "same_consts (l\<lparr>step := n - 1\<rparr>) l'"
      using n(5) sc by (simp add: same_consts_def)
    show ?thesis
      apply (rule exI [of _ n])
      using n sc' P by simp
  qed
qed

section \<open>Before and after the loop\<close>

lemma split_models_frame:
  "split_models self N np h = Inr self' \<Longrightarrow>
   backend self' = backend self \<and> netlist self' = netlist self \<and> logged self' = logged self
   \<and> actors self' = actors self \<and> client self' = client self \<and> runtime_up self' = runtime_up self"
  by (auto simp add: split_models_def Let_def split: backend.splits sum.splits)

lemma setup_actors_frame:
  "setup_actors env self np I_init htc_init = Inr self' \<Longrightarrow>
   backend self' = backend self \<and> netlist self' = netlist self \<and> dt self' = dt self
   \<and> variable_names self' = variable_names self \<and> shm_i_app self' = shm_i_app self
   \<and> output_buffer self' = output_buffer self \<and> timestep self' = timestep self
   \<and> htc self' = htc self \<and> split_index self' = split_index self"
  by (auto simp add: setup_actors_def Let_def split: backend.splits sum.splits)

lemma append_new_length: "length names \<le> length (append_new names outs)"
proof (induction outs arbitrary: names)
  case Nil
  then show ?case by simp
next
  case (Cons out outs)
  show ?case
    using Cons [of names] Cons [of "names @ [out]"] by auto
qed

lemma make_variable_names_length: "2 \<le> length (make_variable_names ov)"
proof (cases ov)
  case None
  then show ?thesis by (simp add: make_variable_names_def Let_def)
next
  case (Some outs)
  have "length [''Terminal voltage [V]'', ''Measured battery open circuit voltage [V]'']
        \<le> length (append_new [''Terminal voltage [V]'',
                                  ''Measured battery open circuit voltage [V]''] outs)"
    by (rule append_new_length)
  then show ?thesis using Some by (simp add: make_variable_names_def Let_def)
qed

lemma solve_init_Inr:
  assumes "solve_init env self args = Inr (s, l)"
  shows "shaped s l" and "0 < Nsteps l" and "time l = 0"
    and "end_time l = fl64 (dt s * real (Nsteps l))" and "dt s = experiment_period args"
    and "record_times l = []" and "V_terminal l = []"
    and "protocol l = experiment_protocol args"
    and "variable_names s = make_variable_names (arg_output_variables args)"
    and "arg_parameter_values args ''Lower voltage cut-off [V]'' = Some (v_cut_lower l)"
    and "arg_parameter_values args ''Upper voltage cut-off [V]'' = Some (v_cut_higher l)"
    and "backend s = backend self"
    and "Nspm l = length (filter (\<lambda>b. b) (desc_map ''V'' (arg_netlist args)))"
    and "shm_i_app s ! 0 = map (\<lambda>x. x * - 1) (I_batt l)"
    and "I_batt l = snd (solve_circuit_vectorized env (arg_netlist args))"
    and "timestep s = 0"
proof -
  define N where "N = length (filter (\<lambda>b. b) (desc_map ''V'' (arg_netlist args)))"
  define Ns where "Ns = length (experiment_protocol args)"
  define names where "names = make_variable_names (arg_output_variables args)"
  from assms have "\<exists>s2 Vn Ib A lo hi I_init htc_init s7.
      split_models (self\<lparr>netlist := arg_netlist args\<rparr>) N (arg_nproc args) (arg_htc args) = Inr s2
    \<and> solve_circuit_vectorized env (netlist s2) = (Vn, Ib)
    \<and> set_row (np_zeros2 Ns N) 0 (map (\<lambda>x. x * - 1) Ib) = Inr A
    \<and> arg_parameter_values args ''Lower voltage cut-off [V]'' = Some lo
    \<and> arg_parameter_values args ''Upper voltage cut-off [V]'' = Some hi
    \<and> setup_actors env
               (s2\<lparr>dt := experiment_period args, variable_names := names,
                    output_buffer := np_zeros3 (length names) Ns N, shm_i_app := A,
                    timestep := 0\<rparr>) (arg_nproc args) I_init htc_init = Inr s7
    \<and> s = s7\<lparr>logged := logged s7 @ [Notice ''Starting step solve'']\<rparr>
    \<and> l = \<lparr>Ri_map = desc_map ''Ri'' (arg_netlist args),
               V_map = desc_map ''V'' (arg_netlist args),
               I_map = desc_map ''I'' (arg_netlist args),
               Terminal_Node = map node1 (select_rows (desc_map ''I'' (arg_netlist args))
                                            (arg_netlist args)),
               Nspm = N, protocol = experiment_protocol args, Nsteps = Ns,
               Nvar = length names, V_node = Vn, I_batt = Ib,
               time = 0, end_time = fl64 (dt s7 * real Ns),
               V_terminal = [], record_times = [], v_cut_lower = lo, v_cut_higher = hi,
               step = 0\<rparr>"
    unfolding N_def Ns_def names_def
    by (auto simp add: solve_init_def Let_def split: sum.splits prod.splits option.splits)
  then obtain s2 Vn Ib A lo hi I_init htc_init s7 where
    sm: "split_models (self\<lparr>netlist := arg_netlist args\<rparr>) N (arg_nproc args) (arg_htc args) = Inr s2"
    and sc: "solve_circuit_vectorized env (netlist s2) = (Vn, Ib)"
    and sr: "set_row (np_zeros2 Ns N) 0 (map (\<lambda>x. x * - 1) Ib) = Inr A"
    and lo: "arg_parameter_values args ''Lower voltage cut-off [V]'' = Some lo"
    and hi: "arg_parameter_values args ''Upper voltage cut-off [V]'' = Some hi"
    and sa: "setup_actors env
               (s2\<lparr>dt := experiment_period args, variable_names := names,
                    output_buffer := np_zeros3 (length names) Ns N, shm_i_app := A,
                    timestep := 0\<rparr>) (arg_nproc args) I_init htc_init = Inr s7"
    and s: "s = s7\<lparr>logged := logged s7 @ [Notice ''Starting step solve'']\<rparr>"
    and l: "l = \<lparr>Ri_map = desc_map ''Ri'' (arg_netlist args),
               V_map = desc_map ''V'' (arg_netlist args),
               I_map = desc_map ''I'' (arg_netlist args),
               Terminal_Node = map node1 (select_rows (desc_map ''I'' (arg_netlist args))
                                            (arg_netlist args)),
               Nspm = N, protocol = experiment_protocol args, Nsteps = Ns,
               Nvar = length names, V_node = Vn, I_batt = Ib,
               time = 0, end_time = fl64 (dt s7 * real Ns),
               V_terminal = [], record_times = [], v_cut_lower = lo, v_cut_higher = hi,
               step = 0\<rparr>"
    by blast
  note F = setup_actors_frame [OF sa]
  note S = split_models_frame [OF sm]
  note R = set_row_Inr [OF sr]
  have Ib_def: "Ib = snd (solve_circuit_vectorized env (arg_netlist args))"
    using sc S by simp
  have Ns: "0 < Ns" and Ibl: "length Ib = N" and A: "A = (np_zeros2 Ns N)[0 := map (\<lambda>x. x * - 1) Ib]"
    using R by (simp_all add: np_zeros2_def)
  have nv: "2 \<le> length names" unfolding names_def by (rule make_variable_names_length)
  have rows: "list_all (\<lambda>row. length row = N) A"
    unfolding A list_all_length
  proof (intro allI impI)
    fix n assume "n < length ((np_zeros2 Ns N)[0 := map (\<lambda>x. x * - 1) Ib])"
    then show "length ((np_zeros2 Ns N)[0 := map (\<lambda>x. x * - 1) Ib] ! n) = N"
      using Ibl by (cases n) (simp_all add: np_zeros2_def)
  qed
  have lenA: "length A = Ns" unfolding A by (simp add: np_zeros2_def)
  show "shaped s l"
    using F nv rows lenA unfolding s l shaped_def
    by (simp add: np_zeros2_def np_zeros3_def list_all_length Ns_def)
  show "0 < Nsteps l" using Ns l by simp
  show "time l = 0" using l by simp
  show "end_time l = fl64 (dt s * real (Nsteps l))" using F s l by simp
  show "dt s = experiment_period args" using F s by simp
  show "record_times l = []" "V_terminal l = []" using l by simp_all
  show "protocol l = experiment_protocol args" using l by simp
  show "variable_names s = make_variable_names (arg_output_variables args)"
    using F s names_def by simp
  show "arg_parameter_values args ''Lower voltage cut-off [V]'' = Some (v_cut_lower l)"
    using lo l by simp
  show "arg_parameter_values args ''Upper voltage cut-off [V]'' = Some (v_cut_higher l)"
    using hi l by simp
  show "backend s = backend self" using F s S by simp
  show "Nspm l = length (filter (\<lambda>b. b) (desc_map ''V'' (arg_netlist args)))"
    using l N_def by simp
  show "shm_i_app s ! 0 = map (\<lambda>x. x * - 1) (I_batt l)"
    using F s l A Ns by (simp add: np_zeros2_def)
  show "I_batt l = snd (solve_circuit_vectorized env (arg_netlist args))"
    using l Ib_def by simp
  show "timestep s = 0" using F s by simp
qed

lemma cleanup_frame:
  "cleanup env self = Inr self' \<Longrightarrow>
   shm_i_app self' = shm_i_app self \<and> output_buffer self' = output_buffer self
   \<and> variable_names self' = variable_names self \<and> backend self' = backend self
   \<and> dt self' = dt self \<and> actors self' = actors self \<and> timestep self' = timestep self"
  by (auto simp add: cleanup_def Let_def split: backend.splits sum.splits option.splits)

lemma append_new_props:
  "distinct names \<Longrightarrow>
   distinct (append_new names outs) \<and> set (append_new names outs) = set names \<union> set outs
   \<and> take (length names) (append_new names outs) = names"
proof (induction outs arbitrary: names)
  case Nil
  then show ?case by simp
next
  case (Cons out outs)
  show ?case
  proof (cases "out \<in> set names")
    case True
    then show ?thesis using Cons.IH [OF Cons.prems] by auto
  next
    case False
    then have d: "distinct (names @ [out])" using Cons.prems by simp
    have "take (length names) (append_new (names @ [out]) outs)
          = take (length names) (take (length (names @ [out])) (append_new (names @ [out]) outs))"
      by (simp add: min_def)
    also have "\<dots> = take (length names) (names @ [out])"
      using Cons.IH [OF d] by simp
    finally have "take (length names) (append_new (names @ [out]) outs) = names" by simp
    then show ?thesis using False Cons.IH [OF d] by auto
  qed
qed

lemma make_variable_names_props:
  "distinct (make_variable_names ov)"
  "set (make_variable_names ov)
     = {''Terminal voltage [V]'', ''Measured battery open circuit voltage [V]''} \<union> requested ov"
  "make_variable_names ov ! 0 = ''Terminal voltage [V]''"
proof -
  let ?base = "[''Terminal voltage [V]'', ''Measured battery open circuit voltage [V]'']"
  have d: "distinct ?base" by simp
  show "distinct (make_variable_names ov)"
    using append_new_props [OF d] by (cases ov) (simp_all add: make_variable_names_def Let_def)
  show "set (make_variable_names ov)
     = {''Terminal voltage [V]'', ''Measured battery open circuit voltage [V]''} \<union> requested ov"
    using append_new_props [OF d]
    by (cases ov) (auto simp add: make_variable_names_def Let_def requested_def)
  show "make_variable_names ov ! 0 = ''Terminal voltage [V]''"
  proof (cases ov)
    case None
    then show ?thesis by (simp add: make_variable_names_def Let_def)
  next
    case (Some outs)
    have "take (length ?base) (append_new ?base outs) ! 0 = ?base ! 0"
      using append_new_props [OF d, of outs] by simp
    then show ?thesis using Some by (simp add: make_variable_names_def Let_def)
  qed
qed

lemma store_variables_Inr:
  "store_variables names outs n m = Inr m' \<Longrightarrow>
   length names \<le> length outs
   \<and> dom m' = dom m \<union> set names
   \<and> (\<forall>key. key \<notin> set names \<longrightarrow> m' key = m key)
   \<and> (distinct names \<longrightarrow> (\<forall>j<length names. m' (names ! j) = Some (Series2 (take n (outs ! j)))))"
proof (induction names arbitrary: outs m)
  case Nil
  then show ?case by simp
next
  case (Cons name names)
  from Cons.prems obtain arr outs' where
    o: "outs = arr # outs'" and
    r: "store_variables names outs' n (m(name \<mapsto> Series2 (take n arr))) = Inr m'"
    by (cases outs) auto
  note IH = Cons.IH [OF r]
  have 1: "length (name # names) \<le> length outs" using IH o by simp
  have 2: "dom m' = dom m \<union> set (name # names)" using IH by auto
  have 3: "\<forall>key. key \<notin> set (name # names) \<longrightarrow> m' key = m key" using IH by auto
  have 4: "distinct (name # names) \<longrightarrow>
           (\<forall>j<length (name # names). m' ((name # names) ! j) = Some (Series2 (take n (outs ! j))))"
  proof (intro impI allI)
    fix j assume d: "distinct (name # names)" and j: "j < length (name # names)"
    show "m' ((name # names) ! j) = Some (Series2 (take n (outs ! j)))"
    proof (cases j)
      case 0
      then show ?thesis using IH d o by simp
    next
      case (Suc i)
      then show ?thesis using IH d o j by simp
    qed
  qed
  from 1 2 3 4 show ?case by blast
qed

lemma store_variables_total:
  "length names \<le> length outs \<Longrightarrow> \<exists>m'. store_variables names outs n m = Inr m'"
proof (induction names arbitrary: outs m)
  case Nil
  then show ?case by simp
next
  case (Cons name names)
  then obtain arr outs' where "outs = arr # outs'" by (cases outs) auto
  with Cons show ?case by simp
qed

lemma collect_outputs_total:
  "shaped self l \<Longrightarrow> \<exists>out. collect_outputs self l = Inr out"
  using store_variables_total
    [of "take (Nvar l) (variable_names self)" "output_buffer self"]
  by (simp add: collect_outputs_def Let_def shaped_def)

lemma solve_Inr:
  assumes "solve env self args = Inr (out, self')"
  obtains s0 l0 s1 l1 s2 where
    "solve_init env self args = Inr (s0, l0)"
    "solve_loop env [0..<Nsteps l0] (s0, l0) = Inr (s1, l1)"
    "cleanup env (s1\<lparr>logged := logged s1 @ [Notice ''Step solve finished'']\<rparr>) = Inr s2"
    "collect_outputs s2 l1 = Inr out"
    "self' = s2\<lparr>all_output := out\<rparr>"
proof -
  from assms have "\<exists>s0 l0 s1 l1 s2.
      solve_init env self args = Inr (s0, l0)
    \<and> solve_loop env [0..<Nsteps l0] (s0, l0) = Inr (s1, l1)
    \<and> cleanup env (s1\<lparr>logged := logged s1 @ [Notice ''Step solve finished'']\<rparr>) = Inr s2
    \<and> collect_outputs s2 l1 = Inr out
    \<and> self' = s2\<lparr>all_output := out\<rparr>"
    by (auto simp add: solve_def Let_def split: sum.splits prod.splits)
  then show ?thesis using that by blast
qed

section \<open>What a pass writes to the netlist\<close>

lemma update_circuit_values:
  assumes uc: "update_circuit env self l = Inr (self', l', stop)"
  shows "netlist self'
           = loc_set_scalar (I_map l) (protocol l ! step l)
               (assign_rows (Ri_map l)
                  (derive_Ri (output_buffer self ! 1 ! step l) (output_buffer self ! 0 ! step l)
                     (shm_i_app self ! step l))
                  (assign_rows (V_map l) (output_buffer self ! 1 ! step l) (netlist self)))"
    and "length (filter (\<lambda>b. b) (V_map l)) = length (output_buffer self ! 1 ! step l)"
    and "length (filter (\<lambda>b. b) (Ri_map l))
           = length (derive_Ri (output_buffer self ! 1 ! step l) (output_buffer self ! 0 ! step l)
                       (shm_i_app self ! step l))"
    and "output_buffer self' = output_buffer self"
    and "V_map l' = V_map l \<and> Ri_map l' = Ri_map l \<and> I_map l' = I_map l
         \<and> protocol l' = protocol l"
proof -
  from uc obtain temp_v temp_ocv i_app setpoint nl l1 A where
    r: "read_step self l = Inr (temp_v, temp_ocv, i_app)" and
    g: "get (protocol l) (step l) = Inr setpoint" and
    u: "update_netlist l temp_ocv (derive_Ri temp_ocv temp_v i_app) setpoint (netlist self) = Inr nl" and
    rc: "resolve_circuit env nl (l\<lparr>time := fl64 (time l + dt self)\<rparr>) = Inr l1" and
    c: "(self', l', stop) = check_cutoffs (self\<lparr>netlist := nl, shm_i_app := A\<rparr>) l1 temp_v"
    by (rule update_circuit_Inr)
  have vals: "temp_v = output_buffer self ! 0 ! step l" "temp_ocv = output_buffer self ! 1 ! step l"
    "i_app = shm_i_app self ! step l"
    using read_step_Inr [OF r] by simp_all
  have sp: "setpoint = protocol l ! step l"
    using g by (simp add: get_def split: if_splits)
  note C = check_cutoffs_eq [OF c [symmetric]]
  note U = update_netlist_Inr [OF u]
  note R = resolve_circuit_Inr [OF rc]
  show "netlist self'
           = loc_set_scalar (I_map l) (protocol l ! step l)
               (assign_rows (Ri_map l)
                  (derive_Ri (output_buffer self ! 1 ! step l) (output_buffer self ! 0 ! step l)
                     (shm_i_app self ! step l))
                  (assign_rows (V_map l) (output_buffer self ! 1 ! step l) (netlist self)))"
    using C U unfolding vals sp by simp
  show "length (filter (\<lambda>b. b) (V_map l)) = length (output_buffer self ! 1 ! step l)"
    using U unfolding vals by simp
  show "length (filter (\<lambda>b. b) (Ri_map l))
           = length (derive_Ri (output_buffer self ! 1 ! step l) (output_buffer self ! 0 ! step l)
                       (shm_i_app self ! step l))"
    using U unfolding vals by simp
  show "output_buffer self' = output_buffer self" using C by simp
  show "V_map l' = V_map l \<and> Ri_map l' = Ri_map l \<and> I_map l' = I_map l
         \<and> protocol l' = protocol l"
    using C R by (simp add: same_consts_def)
qed

lemma solve_step_values:
  assumes st: "solve_step env self l = Inr (self', l', stop)"
  shows "netlist self'
           = loc_set_scalar (I_map l) (protocol l ! step l)
               (assign_rows (Ri_map l)
                  (derive_Ri (output_buffer self' ! 1 ! step l) (output_buffer self' ! 0 ! step l)
                     (shm_i_app self ! step l))
                  (assign_rows (V_map l) (output_buffer self' ! 1 ! step l) (netlist self)))"
    and "length (filter (\<lambda>b. b) (V_map l)) = length (output_buffer self' ! 1 ! step l)"
    and "length (filter (\<lambda>b. b) (Ri_map l))
           = length (derive_Ri (output_buffer self' ! 1 ! step l)
                       (output_buffer self' ! 0 ! step l) (shm_i_app self ! step l))"
    and "V_map l' = V_map l \<and> Ri_map l' = Ri_map l \<and> I_map l' = I_map l
         \<and> protocol l' = protocol l"
proof -
  from st obtain s1 s2 where
    sa: "step_actors env self = Inr s1" and
    go: "get_actor_output s1 (step l) = Inr s2" and
    uc: "update_circuit env s2 l = Inr (self', l', stop)"
    by (auto simp add: solve_step_def split: sum.splits)
  have n: "netlist s2 = netlist self"
    using step_actors_netlist(1) [OF sa] get_actor_output_netlist(1) [OF go] by simp
  have a: "shm_i_app s2 = shm_i_app self"
    using sa go
    by (auto simp add: step_actors_def get_actor_output_def Let_def
        split: backend.splits sum.splits option.splits if_splits prod.splits)
  note V = update_circuit_values [OF uc]
  show "netlist self'
           = loc_set_scalar (I_map l) (protocol l ! step l)
               (assign_rows (Ri_map l)
                  (derive_Ri (output_buffer self' ! 1 ! step l) (output_buffer self' ! 0 ! step l)
                     (shm_i_app self ! step l))
                  (assign_rows (V_map l) (output_buffer self' ! 1 ! step l) (netlist self)))"
    using V(1) unfolding V(4) n a .
  show "length (filter (\<lambda>b. b) (V_map l)) = length (output_buffer self' ! 1 ! step l)"
    using V(2) unfolding V(4) .
  show "length (filter (\<lambda>b. b) (Ri_map l))
           = length (derive_Ri (output_buffer self' ! 1 ! step l)
                       (output_buffer self' ! 0 ! step l) (shm_i_app self ! step l))"
    using V(3) unfolding V(4) a .
  show "V_map l' = V_map l \<and> Ri_map l' = Ri_map l \<and> I_map l' = I_map l
         \<and> protocol l' = protocol l"
    by (rule V(5))
qed

lemma solve_init_masks:
  assumes "solve_init env self args = Inr (s, l)"
  shows "V_map l = desc_map ''V'' (arg_netlist args)
         \<and> Ri_map l = desc_map ''Ri'' (arg_netlist args)
         \<and> I_map l = desc_map ''I'' (arg_netlist args)
         \<and> protocol l = experiment_protocol args"
  using assms
  by (auto simp add: solve_init_def Let_def split: sum.splits prod.splits option.splits)

text \<open>
  Claim C6. Whether \<^verbatim>\<open>solve\<close> returns or raises, the netlist it leaves has the rows
  of the netlist it was given, with their descriptions and nodes: only the column
  \<^verbatim>\<open>value\<close> can differ. The masks of the loop are those of the descriptions
  \<^verbatim>\<open>V\<close>, \<^verbatim>\<open>Ri\<close> and \<^verbatim>\<open>I\<close> of that netlist, and no pass changes them. Every pass
  of the loop that reaches the end of its body, for a step \<open>k\<close>, keeps the rows
  with their descriptions and nodes, leaves every row that none of the three masks
  selects as it was, gives the rows of the current sources the setpoint
  \<^verbatim>\<open>protocol[k]\<close>, and, where no row is selected by two masks, gives the rows of
  the voltage sources the open-circuit voltages \<^verbatim>\<open>output[1, k, :]\<close> that the
  workers have returned in this pass and the rows of the resistors the resistances
  derived from \<^verbatim>\<open>output[1, k, :]\<close>, \<^verbatim>\<open>output[0, k, :]\<close> and
  \<^verbatim>\<open>shm_i_app[k, :]\<close>, cell by cell.
\<close>

theorem netlist_frame:
  "(\<forall>out self'. solve env self args = Inr (out, self') \<longrightarrow>
       topology (netlist self') = topology (arg_netlist args)
       \<and> length (netlist self') = length (arg_netlist args))
   \<and> (\<forall>e self'. solve env self args = Inl (e, self') \<longrightarrow>
       topology (netlist self') = topology (arg_netlist args)
       \<and> length (netlist self') = length (arg_netlist args))
   \<and> (\<forall>s0 l0. solve_init env self args = Inr (s0, l0) \<longrightarrow>
       V_map l0 = desc_map ''V'' (arg_netlist args)
       \<and> Ri_map l0 = desc_map ''Ri'' (arg_netlist args)
       \<and> I_map l0 = desc_map ''I'' (arg_netlist args)
       \<and> protocol l0 = experiment_protocol args)
   \<and> (\<forall>s' l' stop. solve_step env s l = Inr (s', l', stop) \<longrightarrow>
       topology (netlist s') = topology (netlist s)
       \<and> length (netlist s') = length (netlist s)
       \<and> V_map l' = V_map l \<and> Ri_map l' = Ri_map l \<and> I_map l' = I_map l
       \<and> protocol l' = protocol l
       \<and> (\<forall>k. k < length (netlist s) \<and> (k < length (V_map l) \<longrightarrow> \<not> V_map l ! k)
               \<and> (k < length (Ri_map l) \<longrightarrow> \<not> Ri_map l ! k)
               \<and> (k < length (I_map l) \<longrightarrow> \<not> I_map l ! k) \<longrightarrow> netlist s' ! k = netlist s ! k)
       \<and> (\<forall>k. k < length (netlist s) \<and> k < length (I_map l) \<and> I_map l ! k \<longrightarrow>
              val (netlist s' ! k) = protocol l ! step l)
       \<and> (length (V_map l) = length (netlist s) \<and> disjoint_masks (V_map l) (Ri_map l)
            \<and> disjoint_masks (V_map l) (I_map l) \<longrightarrow>
              map val (select_rows (V_map l) (netlist s')) = output_buffer s' ! 1 ! step l)
       \<and> (length (Ri_map l) = length (netlist s) \<and> disjoint_masks (Ri_map l) (I_map l) \<longrightarrow>
              map val (select_rows (Ri_map l) (netlist s'))
              = derive_Ri (output_buffer s' ! 1 ! step l) (output_buffer s' ! 0 ! step l)
                  (shm_i_app s ! step l)))"
proof (intro conjI allI impI)
  fix out self' assume "solve env self args = Inr (out, self')"
  then show t: "topology (netlist self') = topology (arg_netlist args)"
    by (rule solve_topology(1))
  then show "length (netlist self') = length (arg_netlist args)"
    by (rule topology_length)
next
  fix e self' assume "solve env self args = Inl (e, self')"
  then show t: "topology (netlist self') = topology (arg_netlist args)"
    by (rule solve_topology(2))
  then show "length (netlist self') = length (arg_netlist args)"
    by (rule topology_length)
next
  fix s0 l0 assume i: "solve_init env self args = Inr (s0, l0)"
  note M = solve_init_masks [OF i]
  show "V_map l0 = desc_map ''V'' (arg_netlist args)" using M by simp
  show "Ri_map l0 = desc_map ''Ri'' (arg_netlist args)" using M by simp
  show "I_map l0 = desc_map ''I'' (arg_netlist args)" using M by simp
  show "protocol l0 = experiment_protocol args" using M by simp
next
  fix s' l' stop assume st: "solve_step env s l = Inr (s', l', stop)"
  note V = solve_step_values [OF st]
  let ?ocv = "output_buffer s' ! 1 ! step l"
  let ?Ri = "derive_Ri (output_buffer s' ! 1 ! step l) (output_buffer s' ! 0 ! step l)
               (shm_i_app s ! step l)"
  let ?nl1 = "assign_rows (V_map l) ?ocv (netlist s)"
  let ?nl2 = "assign_rows (Ri_map l) ?Ri ?nl1"
  have nl': "netlist s' = loc_set_scalar (I_map l) (protocol l ! step l) ?nl2" by (rule V(1))
  show t: "topology (netlist s') = topology (netlist s)" unfolding nl' by simp
  then show "length (netlist s') = length (netlist s)" by (rule topology_length)
  show "V_map l' = V_map l" "Ri_map l' = Ri_map l" "I_map l' = I_map l"
    "protocol l' = protocol l"
    using V(4) by simp_all
  { fix k
    assume "k < length (netlist s) \<and> (k < length (V_map l) \<longrightarrow> \<not> V_map l ! k)
               \<and> (k < length (Ri_map l) \<longrightarrow> \<not> Ri_map l ! k)
               \<and> (k < length (I_map l) \<longrightarrow> \<not> I_map l ! k)"
    then show "netlist s' ! k = netlist s ! k"
      unfolding nl' by (simp add: loc_set_scalar_untouched assign_rows_untouched) }
  { fix k
    assume "k < length (netlist s) \<and> k < length (I_map l) \<and> I_map l ! k"
    then show "val (netlist s' ! k) = protocol l ! step l"
      unfolding nl' by (simp add: loc_set_scalar_selected) }
  { assume a: "length (V_map l) = length (netlist s) \<and> disjoint_masks (V_map l) (Ri_map l)
            \<and> disjoint_masks (V_map l) (I_map l)"
    have "select_rows (V_map l) (netlist s') = select_rows (V_map l) ?nl1"
      unfolding nl' using a
      by (simp add: disjoint_masks_def select_loc_set_scalar select_assign_other)
    moreover have "map val (select_rows (V_map l) ?nl1) = ?ocv"
      using V(2) a by (intro select_assign_rows) simp_all
    ultimately show "map val (select_rows (V_map l) (netlist s')) = ?ocv" by simp }
  { assume a: "length (Ri_map l) = length (netlist s) \<and> disjoint_masks (Ri_map l) (I_map l)"
    have "select_rows (Ri_map l) (netlist s') = select_rows (Ri_map l) ?nl2"
      unfolding nl' using a by (simp add: disjoint_masks_def select_loc_set_scalar)
    moreover have "map val (select_rows (Ri_map l) ?nl2) = ?Ri"
      using V(3) a by (intro select_assign_rows) simp_all
    ultimately show "map val (select_rows (Ri_map l) (netlist s')) = ?Ri" by simp }
qed

theorem netlist_frame_witness:
  "(\<exists>out self'. solve demo_env (manager_init Casadi) demo_args = Inr (out, self')
       \<and> topology (netlist self') = topology demo_netlist)
   \<and> (\<exists>e self'. solve demo_env (manager_init Ray) (demo_args\<lparr>arg_nproc := 0\<rparr>) = Inl (e, self')
       \<and> topology (netlist self') = topology demo_netlist)
   \<and> (\<exists>s0 l0 s1 l1 s2 l2 stop.
         solve_init demo_env (manager_init Casadi) demo_args = Inr (s0, l0)
       \<and> I_map l0 = [True, False, False, False, False]
       \<and> solve_step demo_env s0 l0 = Inr (s1, l1, False)
       \<and> solve_step demo_env s1 (l1\<lparr>step := 1\<rparr>) = Inr (s2, l2, stop)
       \<and> topology (netlist s2) = topology demo_netlist
       \<and> val (netlist s2 ! 0) = 2
       \<and> map val (select_rows (V_map l1) (netlist s2)) = [31 / 10, 31 / 10]
       \<and> map val (select_rows (Ri_map l1) (netlist s2)) = [1 / 10, 1 / 10])"
proof (intro conjI)
  have "case solve demo_env (manager_init Casadi) demo_args of Inl e \<Rightarrow> False | Inr r \<Rightarrow> True"
    by code_simp
  then obtain out self' where
    run: "solve demo_env (manager_init Casadi) demo_args = Inr (out, self')"
    by (auto split: sum.splits)
  have a: "arg_netlist demo_args = demo_netlist" by (simp add: demo_args_def)
  from netlist_frame [of demo_env "manager_init Casadi" demo_args] run a
  have "topology (netlist self') = topology demo_netlist" by simp
  with run show "\<exists>out self'. solve demo_env (manager_init Casadi) demo_args = Inr (out, self')
       \<and> topology (netlist self') = topology demo_netlist" by blast
next
  have "case solve demo_env (manager_init Ray) (demo_args\<lparr>arg_nproc := 0\<rparr>) of
          Inl e \<Rightarrow> True | Inr r \<Rightarrow> False"
    by code_simp
  then obtain e self' where
    run: "solve demo_env (manager_init Ray) (demo_args\<lparr>arg_nproc := 0\<rparr>) = Inl (e, self')"
    by (auto split: sum.splits)
  have a: "arg_netlist (demo_args\<lparr>arg_nproc := 0\<rparr>) = demo_netlist" by (simp add: demo_args_def)
  from netlist_frame [of demo_env "manager_init Ray" "demo_args\<lparr>arg_nproc := 0\<rparr>"] run a
  have "topology (netlist self') = topology demo_netlist" by simp
  with run show "\<exists>e self'. solve demo_env (manager_init Ray) (demo_args\<lparr>arg_nproc := 0\<rparr>)
        = Inl (e, self') \<and> topology (netlist self') = topology demo_netlist" by blast
next
  define i where "i = solve_init demo_env (manager_init Casadi) demo_args"
  define s0 where "s0 = fst (projr i)"
  define l0 where "l0 = snd (projr i)"
  define p1 where "p1 = solve_step demo_env s0 l0"
  define s1 where "s1 = fst (projr p1)"
  define l1 where "l1 = fst (snd (projr p1))"
  define p2 where "p2 = solve_step demo_env s1 (l1\<lparr>step := 1\<rparr>)"
  define s2 where "s2 = fst (projr p2)"
  define l2 where "l2 = fst (snd (projr p2))"
  define stop where "stop = snd (snd (projr p2))"
  note defs = s2_def l2_def stop_def p2_def s1_def l1_def p1_def s0_def l0_def i_def
  have "\<not> isl i" unfolding defs by code_simp
  then have i: "i = Inr (s0, l0)" unfolding s0_def l0_def by simp
  have "\<not> isl p1" "\<not> snd (snd (projr p1))" unfolding defs by code_simp+
  then have p1: "p1 = Inr (s1, l1, False)"
    unfolding s1_def l1_def by (cases p1) auto
  have "\<not> isl p2" unfolding defs by code_simp
  then have p2: "p2 = Inr (s2, l2, stop)" unfolding s2_def l2_def stop_def by simp
  have f: "I_map l0 = [True, False, False, False, False]"
    "topology (netlist s1) = topology demo_netlist"
    "length (netlist s1) = 5" "length (I_map l1) = 5" "I_map l1 ! 0"
    "length (V_map l1) = 5" "length (Ri_map l1) = 5"
    "disjoint_masks (V_map l1) (Ri_map l1)"
    "disjoint_masks (V_map l1) (I_map l1)"
    "disjoint_masks (Ri_map l1) (I_map l1)"
    "protocol l1 ! 1 = 2"
    "output_buffer s2 ! 1 ! 1 = [31 / 10, 31 / 10]"
    "derive_Ri (output_buffer s2 ! 1 ! 1) (output_buffer s2 ! 0 ! 1) (shm_i_app s1 ! 1)
       = [1 / 10, 1 / 10]"
    unfolding defs by code_simp+
  have gen: "solve_step demo_env s l = Inr (s', l', b) \<Longrightarrow>
       topology (netlist s') = topology (netlist s)
       \<and> (\<forall>k. k < length (netlist s) \<and> k < length (I_map l) \<and> I_map l ! k \<longrightarrow>
              val (netlist s' ! k) = protocol l ! step l)
       \<and> (length (V_map l) = length (netlist s) \<and> disjoint_masks (V_map l) (Ri_map l)
            \<and> disjoint_masks (V_map l) (I_map l) \<longrightarrow>
              map val (select_rows (V_map l) (netlist s')) = output_buffer s' ! 1 ! step l)
       \<and> (length (Ri_map l) = length (netlist s) \<and> disjoint_masks (Ri_map l) (I_map l) \<longrightarrow>
              map val (select_rows (Ri_map l) (netlist s'))
              = derive_Ri (output_buffer s' ! 1 ! step l) (output_buffer s' ! 0 ! step l)
                  (shm_i_app s ! step l))" for s l s' l' b
    using netlist_frame [of demo_env "manager_init Casadi" demo_args s l] by blast
  note g = gen [OF p2 [unfolded p2_def]]
  have r1: "topology (netlist s2) = topology demo_netlist" using g f(2) by simp
  have r2: "val (netlist s2 ! 0) = 2" using g f(3,4,5,11) by simp
  have r3: "map val (select_rows (V_map l1) (netlist s2)) = [31 / 10, 31 / 10]"
    using g f(3,6,8,9,12) by simp
  have r4: "map val (select_rows (Ri_map l1) (netlist s2)) = [1 / 10, 1 / 10]"
    using g f(3,7,10,13) by simp
  show "\<exists>s0 l0 s1 l1 s2 l2 stop.
         solve_init demo_env (manager_init Casadi) demo_args = Inr (s0, l0)
       \<and> I_map l0 = [True, False, False, False, False]
       \<and> solve_step demo_env s0 l0 = Inr (s1, l1, False)
       \<and> solve_step demo_env s1 (l1\<lparr>step := 1\<rparr>) = Inr (s2, l2, stop)
       \<and> topology (netlist s2) = topology demo_netlist
       \<and> val (netlist s2 ! 0) = 2
       \<and> map val (select_rows (V_map l1) (netlist s2)) = [31 / 10, 31 / 10]
       \<and> map val (select_rows (Ri_map l1) (netlist s2)) = [1 / 10, 1 / 10]"
  proof (intro exI conjI)
    show "solve_init demo_env (manager_init Casadi) demo_args = Inr (s0, l0)"
      using i unfolding i_def .
    show "I_map l0 = [True, False, False, False, False]" by (rule f(1))
    show "solve_step demo_env s0 l0 = Inr (s1, l1, False)" using p1 unfolding p1_def .
    show "solve_step demo_env s1 (l1\<lparr>step := 1\<rparr>) = Inr (s2, l2, stop)"
      using p2 unfolding p2_def .
    show "topology (netlist s2) = topology demo_netlist" by (rule r1)
    show "val (netlist s2 ! 0) = 2" by (rule r2)
    show "map val (select_rows (V_map l1) (netlist s2)) = [31 / 10, 31 / 10]" by (rule r3)
    show "map val (select_rows (Ri_map l1) (netlist s2)) = [1 / 10, 1 / 10]" by (rule r4)
  qed
qed
section \<open>The clock of the loop and the recorded steps\<close>

text \<open>
  Claim C3 at a period that is not a binary fraction. The cells of the example leave
  the voltage limits in step \<open>5\<close> of a protocol of six steps. With the period
  \<open>10\<close> every series of the result has the six recorded steps. With the float
  \<open>0.3\<close> the sum of six periods is \<open>1.8\<close> and above the product
  \<open>1.7999999999999998\<close>, so the last pass records no time and no pack voltage:
  these two series have five entries where the others have six. With the float
  \<open>0.1\<close> the sum of six periods is \<open>0.6\<close> and below the product
  \<open>0.6000000000000001\<close>, so the last pass writes row \<open>6\<close> of the six rows of
  the current buffer: \<^verbatim>\<open>solve\<close> raises \<open>IndexError\<close> with the terminal voltages of
  step \<open>5\<close> collected, and returns nothing.
\<close>

theorem clock_drift:
  "(case solve slow_env (manager_init Casadi) (slow_args 10) of
      Inl e \<Rightarrow> False
    | Inr (out, self') \<Rightarrow>
        map (\<lambda>name. map_option series_len (out name))
          [''Time [s]'', ''Pack terminal voltage [V]'', ''Pack current [A]'',
           ''Cell current [A]'', ''Terminal voltage [V]'',
           ''Measured battery open circuit voltage [V]'']
        = [Some 6, Some 6, Some 6, Some 6, Some 6, Some 6])
   \<and> (case solve slow_env (manager_init Casadi) (slow_args (fl64 (3 / 10))) of
        Inl e \<Rightarrow> False
      | Inr (out, self') \<Rightarrow>
          map (\<lambda>name. map_option series_len (out name))
            [''Time [s]'', ''Pack terminal voltage [V]'', ''Pack current [A]'',
             ''Cell current [A]'', ''Terminal voltage [V]'',
             ''Measured battery open circuit voltage [V]'']
          = [Some 5, Some 5, Some 6, Some 6, Some 6, Some 6]
          \<and> (case out ''Terminal voltage [V]'' of
                Some (Series2 tv) \<Rightarrow> outside (71 / 20) (21 / 5) (tv ! 5)
              | _ \<Rightarrow> False))
   \<and> (case solve slow_env (manager_init Casadi) (slow_args (fl64 (1 / 10))) of
        Inl (e, self') \<Rightarrow>
          e = IndexError \<and> outside (71 / 20) (21 / 5) (output_buffer self' ! 0 ! 5)
      | Inr r \<Rightarrow> False)"
  by code_simp
section \<open>Events and the exits of the loop\<close>

lemma log_event_rows_extends:
  "log_event_rows names rows r lg = Inr lg' \<Longrightarrow> \<exists>lines. lg' = lg @ lines"
proof (induction rows arbitrary: r lg)
  case Nil
  then show ?case by simp
next
  case (Cons row rows)
  show ?case
  proof (cases "list_ex (\<lambda>b. b) row")
    case True
    with Cons.prems obtain name where
      "log_event_rows names rows (Suc r) (lg @ [Event_warning name (where_true row)]) = Inr lg'"
      by (auto split: sum.splits)
    from Cons.IH [OF this] show ?thesis by auto
  next
    case False
    with Cons.prems have "log_event_rows names rows (Suc r) lg = Inr lg'" by simp
    from Cons.IH [OF this] show ?thesis .
  qed
qed

lemma log_event_rows_total:
  "r + length rows \<le> length names \<Longrightarrow> \<exists>lg'. log_event_rows names rows r lg = Inr lg'"
proof (induction rows arbitrary: r lg)
  case Nil
  then show ?case by simp
next
  case (Cons row rows)
  then have r: "r < length names" and rest: "Suc r + length rows \<le> length names" by simp_all
  from Cons.IH [OF rest] r show ?case by (simp add: get_def)
qed

lemma step_actors_only_logs:
  assumes "step_actors env self = Inr self'"
  shows "\<exists>lines. self' = self\<lparr>actors := actors self', logged := logged self @ lines\<rparr>"
  using assms
  apply (auto simp add: step_actors_def Let_def dest!: log_event_rows_extends
      split: backend.splits sum.splits option.splits prod.splits if_splits)
    apply (rule exI [of _ "[]"], simp)+
  done

lemma step_actors_pool:
  assumes "backend self \<noteq> Casadi" "actors self = Some as" "build_inputs self = Inr ins"
    "step_each env as ins = Inr (as', evs)"
  shows "step_actors env self
         = Inr (self\<lparr>actors := Some as',
                     logged := logged self
                       @ (if list_ex (\<lambda>b. b) evs then [Warning ''Events were triggered'']
                          else [])\<rparr>)"
  using assms by (cases "backend self") (simp_all add: step_actors_def Let_def)

lemma step_actors_casadi:
  assumes "backend self = Casadi" "actors self = Some as" "0 < length as"
    "build_inputs self = Inr ins" "0 < length ins"
    "actor_step env (as ! 0) (ins ! 0) = Inr (a', ev)"
    "\<forall>change. event_change a' = Some change \<longrightarrow> length change \<le> length (event_names a')"
  shows "\<exists>lines. step_actors env self
                  = Inr (self\<lparr>actors := Some (as[0 := a']), logged := logged self @ lines\<rparr>)
                \<and> (lines = [] \<longleftrightarrow> \<not> ev)"
proof (cases ev)
  case False
  then have "step_actors env self
             = Inr (self\<lparr>actors := Some (as[0 := a']), logged := logged self @ []\<rparr>)"
    using assms by (simp add: step_actors_def Let_def get_def)
  then show ?thesis using False by blast
next
  case True
  from assms(6) obtain s s' v evv where
    st: "step_solutions (as ! 0) = Some s" "step_fn env s (ins ! 0) = Inr (s', v, evv)"
    "(a', ev) = check_events ((as ! 0)\<lparr>step_solutions := Some s', var_eval := v,
                                        events_eval := evv\<rparr>)"
    by (auto simp add: actor_step_def split: option.splits sum.splits)
  from st(3) True obtain change where ch: "event_change a' = Some change"
    by (auto simp add: check_events_def Let_def split: option.splits)
  then have "0 + length change \<le> length (event_names a')" using assms(7) by simp
  from log_event_rows_total [OF this]
  obtain lg where lg: "log_event_rows (event_names a') change 0
                         (logged self @ [Warning ''Events were triggered'']) = Inr lg"
    by blast
  from log_event_rows_extends [OF lg] obtain more where
    m: "lg = logged self @ ([Warning ''Events were triggered''] @ more)" by auto
  have "step_actors env self = Inr (self\<lparr>actors := Some (as[0 := a']), logged := lg\<rparr>)"
    using assms True ch lg by (simp add: step_actors_def Let_def get_def)
  then show ?thesis using m True by blast
qed

lemma solve_step_exit:
  assumes "solve_step env self l = Inr (self', l', stop)"
  shows "stop \<longleftrightarrow> outside (v_cut_lower l) (v_cut_higher l) (output_buffer self' ! 0 ! step l)"
proof -
  from assms obtain s1 s2 where
    uc: "update_circuit env s2 l = Inr (self', l', stop)"
    by (auto simp add: solve_step_def split: sum.splits)
  from uc obtain temp_v temp_ocv i_app nl l1 A where
    r: "read_step s2 l = Inr (temp_v, temp_ocv, i_app)" and
    rc: "resolve_circuit env nl (l\<lparr>time := fl64 (time l + dt s2)\<rparr>) = Inr l1" and
    c: "(self', l', stop) = check_cutoffs (s2\<lparr>netlist := nl, shm_i_app := A\<rparr>) l1 temp_v"
    by (rule update_circuit_Inr)
  note C = check_cutoffs_eq [OF c [symmetric]]
  note R = resolve_circuit_Inr [OF rc]
  have "temp_v = output_buffer self' ! 0 ! step l" using read_step_Inr [OF r] C by simp
  then show ?thesis using C R by (simp add: same_consts_def)
qed

lemma solve_summary:
  assumes "solve (env :: 'sol collaborators) self args = Inr (out, self')"
  obtains s :: "'sol manager" and l n where
    "collect_outputs s l = Inr out" "shaped s l" "0 < n" "n \<le> Nsteps l" "step l = n - 1"
    "Nsteps l = length (experiment_protocol args)"
    "variable_names s = make_variable_names (arg_output_variables args)"
    "arg_parameter_values args ''Lower voltage cut-off [V]'' = Some (v_cut_lower l)"
    "arg_parameter_values args ''Upper voltage cut-off [V]'' = Some (v_cut_higher l)"
    "\<forall>j<n - 1. \<not> outside (v_cut_lower l) (v_cut_higher l) (output_buffer s ! 0 ! j)"
    "n < Nsteps l \<longrightarrow> outside (v_cut_lower l) (v_cut_higher l) (output_buffer s ! 0 ! (n - 1))"
proof -
  from assms(1) obtain s0 l0 s1 l1 s2 where
    i: "solve_init env self args = Inr (s0, l0)" and
    lp: "solve_loop env [0..<Nsteps l0] (s0, l0) = Inr (s1, l1)" and
    c: "cleanup env (s1\<lparr>logged := logged s1 @ [Notice ''Step solve finished'']\<rparr>) = Inr s2" and
    co: "collect_outputs s2 l1 = Inr out"
    by (rule solve_Inr)
  note I = solve_init_Inr [OF i]
  have inv: "loop_inv 0 s0 l0"
    using I by (simp add: loop_inv_def)
  from solve_loop_progress [OF lp inv I(2)]
  obtain n where n: "0 < n" "n \<le> Nsteps l0" "step l1 = n - 1" "shaped s1 l1"
    "same_consts (l0\<lparr>step := n - 1\<rparr>) l1" "variable_names s1 = variable_names s0"
    "\<forall>j<n - 1. \<not> outside (v_cut_lower l0) (v_cut_higher l0) (output_buffer s1 ! 0 ! j)"
    "n < Nsteps l0 \<longrightarrow>
       outside (v_cut_lower l0) (v_cut_higher l0) (output_buffer s1 ! 0 ! (n - 1))"
    by auto
  have cs: "Nsteps l1 = Nsteps l0" "protocol l1 = protocol l0" "v_cut_lower l1 = v_cut_lower l0"
    "v_cut_higher l1 = v_cut_higher l0" "Nspm l1 = Nspm l0" "Nvar l1 = Nvar l0"
    using n(5) by (simp_all add: same_consts_def)
  have F: "shm_i_app s2 = shm_i_app s1" "output_buffer s2 = output_buffer s1"
    "variable_names s2 = variable_names s1"
    using cleanup_frame [OF c] by simp_all
  have sh: "shaped s2 l1" using n(4) F by (simp add: shaped_def)
  have len: "Nsteps l1 = length (experiment_protocol args)"
    using sh cs I(8) by (simp add: shaped_def)
  show ?thesis
    by (rule that [of s2 l1 n]) (use co sh n cs F I len in simp_all)
qed

text \<open>
  Claim C7. The flags that the steps of the workers return are used for the log
  only. A call of \<^verbatim>\<open>step_actors\<close> that returns has changed the workers and has
  appended lines to the log, and nothing else. On Ray and Dask, when the inputs are
  built and every worker has stepped, the call returns whatever the flags are, with
  the one line \<^verbatim>\<open>Events were triggered\<close> if a flag is set and no line otherwise; on
  Casadi it returns too, with lines exactly if the flag is set, provided the worker
  has a name for each row of its event indicators. A pass of the loop that reaches
  the end of its body leaves the loop exactly if a terminal voltage collected in
  this pass is outside the cutoffs. So in a run that returns, no recorded step
  before the last has a terminal voltage outside the cutoffs, and when fewer steps
  are recorded than the protocol has, the last recorded step has one.
\<close>

theorem events_only_logged:
  fixes env :: "'sol collaborators"
  shows
   "(\<forall>(self :: 'sol manager) self'. step_actors env self = Inr self' \<longrightarrow>
        (\<exists>lines. self' = self\<lparr>actors := actors self', logged := logged self @ lines\<rparr>))
    \<and> (\<forall>(self :: 'sol manager) as ins as' evs.
          backend self \<noteq> Casadi \<and> actors self = Some as \<and> build_inputs self = Inr ins
          \<and> step_each env as ins = Inr (as', evs) \<longrightarrow>
          step_actors env self
          = Inr (self\<lparr>actors := Some as',
                      logged := logged self
                        @ (if list_ex (\<lambda>b. b) evs then [Warning ''Events were triggered'']
                           else [])\<rparr>))
    \<and> (\<forall>(self :: 'sol manager) as ins a' ev.
          backend self = Casadi \<and> actors self = Some as \<and> 0 < length as
          \<and> build_inputs self = Inr ins \<and> 0 < length ins
          \<and> actor_step env (as ! 0) (ins ! 0) = Inr (a', ev)
          \<and> (\<forall>change. event_change a' = Some change \<longrightarrow>
                 length change \<le> length (event_names a')) \<longrightarrow>
          (\<exists>lines. step_actors env self
                    = Inr (self\<lparr>actors := Some (as[0 := a']), logged := logged self @ lines\<rparr>)
                  \<and> (lines = [] \<longleftrightarrow> \<not> ev)))
    \<and> (\<forall>(self :: 'sol manager) l self' l' stop.
          solve_step env self l = Inr (self', l', stop) \<longrightarrow>
          (stop \<longleftrightarrow>
             outside (v_cut_lower l) (v_cut_higher l) (output_buffer self' ! 0 ! step l)))
    \<and> (\<forall>(self :: 'sol manager) args out self' lo hi.
          solve env self args = Inr (out, self')
          \<and> arg_parameter_values args ''Lower voltage cut-off [V]'' = Some lo
          \<and> arg_parameter_values args ''Upper voltage cut-off [V]'' = Some hi \<longrightarrow>
          (\<exists>tv. out ''Terminal voltage [V]'' = Some (Series2 tv)
               \<and> 0 < length tv \<and> length tv \<le> length (experiment_protocol args)
               \<and> (\<forall>j<length tv - 1. \<not> outside lo hi (tv ! j))
               \<and> (length tv < length (experiment_protocol args) \<longrightarrow>
                    outside lo hi (tv ! (length tv - 1)))))"
proof (intro conjI allI impI)
  fix self self' :: "'sol manager"
  assume "step_actors env self = Inr self'"
  then show "\<exists>lines. self' = self\<lparr>actors := actors self', logged := logged self @ lines\<rparr>"
    by (rule step_actors_only_logs)
next
  fix self :: "'sol manager" and as ins as' evs
  assume "backend self \<noteq> Casadi \<and> actors self = Some as \<and> build_inputs self = Inr ins
          \<and> step_each env as ins = Inr (as', evs)"
  then show "step_actors env self
          = Inr (self\<lparr>actors := Some as',
                      logged := logged self
                        @ (if list_ex (\<lambda>b. b) evs then [Warning ''Events were triggered'']
                           else [])\<rparr>)"
    using step_actors_pool [of self as ins env as' evs] by simp
next
  fix self :: "'sol manager" and as ins a' ev
  assume "backend self = Casadi \<and> actors self = Some as \<and> 0 < length as
          \<and> build_inputs self = Inr ins \<and> 0 < length ins
          \<and> actor_step env (as ! 0) (ins ! 0) = Inr (a', ev)
          \<and> (\<forall>change. event_change a' = Some change \<longrightarrow>
                 length change \<le> length (event_names a'))"
  then show "\<exists>lines. step_actors env self
                    = Inr (self\<lparr>actors := Some (as[0 := a']), logged := logged self @ lines\<rparr>)
                  \<and> (lines = [] \<longleftrightarrow> \<not> ev)"
    using step_actors_casadi [of self as ins env a' ev] by simp
next
  fix self :: "'sol manager" and l self' l' stop
  assume "solve_step env self l = Inr (self', l', stop)"
  then show "stop \<longleftrightarrow>
             outside (v_cut_lower l) (v_cut_higher l) (output_buffer self' ! 0 ! step l)"
    by (rule solve_step_exit)
next
  fix self :: "'sol manager" and args out self' lo hi
  assume a: "solve env self args = Inr (out, self')
          \<and> arg_parameter_values args ''Lower voltage cut-off [V]'' = Some lo
          \<and> arg_parameter_values args ''Upper voltage cut-off [V]'' = Some hi"
  then have run: "solve env self args = Inr (out, self')" by simp
  from run obtain s :: "'sol manager" and l n where
    co: "collect_outputs s l = Inr out" and sh: "shaped s l" and n: "0 < n" "n \<le> Nsteps l"
    and st: "step l = n - 1" and ns: "Nsteps l = length (experiment_protocol args)"
    and vn: "variable_names s = make_variable_names (arg_output_variables args)"
    and lo: "arg_parameter_values args ''Lower voltage cut-off [V]'' = Some (v_cut_lower l)"
    and hi: "arg_parameter_values args ''Upper voltage cut-off [V]'' = Some (v_cut_higher l)"
    and before: "\<forall>j<n - 1. \<not> outside (v_cut_lower l) (v_cut_higher l) (output_buffer s ! 0 ! j)"
    and last: "n < Nsteps l \<longrightarrow>
                 outside (v_cut_lower l) (v_cut_higher l) (output_buffer s ! 0 ! (n - 1))"
    by (rule solve_summary)
  have lohi: "lo = v_cut_lower l" "hi = v_cut_higher l" using a lo hi by simp_all
  have step1: "step l + 1 = n" using st n by simp
  let ?m4 = "[''Time [s]'' \<mapsto> Series1 (record_times l),
              ''Pack current [A]'' \<mapsto> Series1 (take n (protocol l)),
              ''Pack terminal voltage [V]'' \<mapsto> Series1 (V_terminal l),
              ''Cell current [A]'' \<mapsto> Series2 (take n (shm_i_app s))]"
  have nv: "Nvar l = length (variable_names s)" "2 \<le> Nvar l"
    "length (output_buffer s) = Nvar l"
    using sh by (simp_all add: shaped_def)
  have sv: "store_variables (variable_names s) (output_buffer s) n ?m4 = Inr out"
    using co step1 nv by (simp add: collect_outputs_def Let_def)
  note SV = store_variables_Inr [OF sv]
  have d: "distinct (variable_names s)" unfolding vn by (rule make_variable_names_props(1))
  have name0: "variable_names s ! 0 = ''Terminal voltage [V]''"
    unfolding vn by (rule make_variable_names_props(3))
  have pos: "0 < length (variable_names s)" using nv by (cases "variable_names s") simp_all
  have "out (variable_names s ! 0) = Some (Series2 (take n (output_buffer s ! 0)))"
    using SV d pos by blast
  then have tv: "out ''Terminal voltage [V]'' = Some (Series2 (take n (output_buffer s ! 0)))"
    using name0 by simp
  have arr: "\<forall>j<Nvar l. length (output_buffer s ! j) = Nsteps l"
    using sh by (simp add: shaped_def list_all_length)
  then have len0: "length (output_buffer s ! 0) = Nsteps l" using nv pos by simp
  have ltv: "length (take n (output_buffer s ! 0)) = n" using len0 n by simp
  show "\<exists>tv. out ''Terminal voltage [V]'' = Some (Series2 tv)
               \<and> 0 < length tv \<and> length tv \<le> length (experiment_protocol args)
               \<and> (\<forall>j<length tv - 1. \<not> outside lo hi (tv ! j))
               \<and> (length tv < length (experiment_protocol args) \<longrightarrow>
                    outside lo hi (tv ! (length tv - 1)))"
  proof (intro exI conjI allI impI)
    show "out ''Terminal voltage [V]'' = Some (Series2 (take n (output_buffer s ! 0)))"
      by (rule tv)
    show "0 < length (take n (output_buffer s ! 0))" using ltv n by simp
    show "length (take n (output_buffer s ! 0)) \<le> length (experiment_protocol args)"
      using ltv n ns by simp
    fix j assume "j < length (take n (output_buffer s ! 0)) - 1"
    then have "j < n - 1" using ltv by simp
    then show "\<not> outside lo hi (take n (output_buffer s ! 0) ! j)"
      using before lohi by simp
  next
    assume "length (take n (output_buffer s ! 0)) < length (experiment_protocol args)"
    then have "n < Nsteps l" using ltv ns by simp
    then have "outside lo hi (output_buffer s ! 0 ! (n - 1))" using last lohi by simp
    moreover have "take n (output_buffer s ! 0) ! (n - 1) = output_buffer s ! 0 ! (n - 1)"
      using n by simp
    ultimately show "outside lo hi (take n (output_buffer s ! 0)
                       ! (length (take n (output_buffer s ! 0)) - 1))"
      unfolding ltv by simp
  qed
qed

theorem events_only_logged_witness:
  "\<exists>out self' tv.
      solve demo_env (manager_init Casadi)
        (demo_args\<lparr>arg_parameter_values := [''Lower voltage cut-off [V]'' \<mapsto> 3 / 2,
                                             ''Upper voltage cut-off [V]'' \<mapsto> 21 / 5],
                   experiment_protocol := [2, 2, 2, 2, 2]\<rparr>) = Inr (out, self')
    \<and> logged self' = [Notice ''Starting step solve'', Warning ''Events were triggered'',
                     Event_warning ''Minimum voltage'' [0, 1],
                     Print ''Low voltage limit reached'', Notice ''Step solve finished'']
    \<and> out ''Terminal voltage [V]'' = Some (Series2 tv)
    \<and> length tv = 4 \<and> \<not> outside (3 / 2) (21 / 5) (tv ! 2) \<and> outside (3 / 2) (21 / 5) (tv ! 3)"
proof -
  define args where "args = demo_args\<lparr>arg_parameter_values :=
      [''Lower voltage cut-off [V]'' \<mapsto> 3 / 2, ''Upper voltage cut-off [V]'' \<mapsto> 21 / 5],
      experiment_protocol := [2, 2, 2, 2, 2]\<rparr>"
  define r where "r = solve demo_env (manager_init Casadi :: (nat \<times> nat) manager) args"
  define out where "out = fst (projr r)"
  define self' where "self' = snd (projr r)"
  note defs = out_def self'_def r_def args_def
  have "\<not> isl r" unfolding defs by code_simp
  then have run: "solve demo_env (manager_init Casadi) args = Inr (out, self')"
    unfolding out_def self'_def r_def by simp
  have f: "logged self' = [Notice ''Starting step solve'', Warning ''Events were triggered'',
                     Event_warning ''Minimum voltage'' [0, 1],
                     Print ''Low voltage limit reached'', Notice ''Step solve finished'']"
    "map_option series_len (out ''Terminal voltage [V]'') = Some 4"
    unfolding defs by code_simp+
  have p: "arg_parameter_values args ''Lower voltage cut-off [V]'' = Some (3 / 2)"
    "arg_parameter_values args ''Upper voltage cut-off [V]'' = Some (21 / 5)"
    "length (experiment_protocol args) = 5"
    by (simp_all add: args_def)
  note T = events_only_logged [of demo_env, THEN conjunct2, THEN conjunct2, THEN conjunct2,
      THEN conjunct2, rule_format]
  have "\<exists>tv. out ''Terminal voltage [V]'' = Some (Series2 tv)
               \<and> 0 < length tv \<and> length tv \<le> length (experiment_protocol args)
               \<and> (\<forall>j<length tv - 1. \<not> outside (3 / 2) (21 / 5) (tv ! j))
               \<and> (length tv < length (experiment_protocol args) \<longrightarrow>
                    outside (3 / 2) (21 / 5) (tv ! (length tv - 1)))"
    by (rule T [of "manager_init Casadi" args out self' "3 / 2" "21 / 5"]) (simp add: run p)
  then obtain tv where
    tv: "out ''Terminal voltage [V]'' = Some (Series2 tv)"
    "\<forall>j<length tv - 1. \<not> outside (3 / 2) (21 / 5) (tv ! j)"
    "length tv < length (experiment_protocol args) \<longrightarrow>
       outside (3 / 2) (21 / 5) (tv ! (length tv - 1))"
    by blast
  have len: "length tv = 4" using f(2) tv(1) by simp
  have inside: "\<not> outside (3 / 2) (21 / 5) (tv ! 2)" using tv(2) len by simp
  have out3: "outside (3 / 2) (21 / 5) (tv ! 3)" using tv(3) len p(3) by simp
  show ?thesis
  proof (intro exI conjI)
    show "solve demo_env (manager_init Casadi)
        (demo_args\<lparr>arg_parameter_values := [''Lower voltage cut-off [V]'' \<mapsto> 3 / 2,
                                             ''Upper voltage cut-off [V]'' \<mapsto> 21 / 5],
                   experiment_protocol := [2, 2, 2, 2, 2]\<rparr>) = Inr (out, self')"
      using run unfolding args_def .
    show "logged self' = [Notice ''Starting step solve'', Warning ''Events were triggered'',
                     Event_warning ''Minimum voltage'' [0, 1],
                     Print ''Low voltage limit reached'', Notice ''Step solve finished'']" by (rule f(1))
    show "out ''Terminal voltage [V]'' = Some (Series2 tv)" by (rule tv(1))
    show "length tv = 4" by (rule len)
    show "\<not> outside (3 / 2) (21 / 5) (tv ! 2)" by (rule inside)
    show "outside (3 / 2) (21 / 5) (tv ! 3)" by (rule out3)
  qed
qed
section \<open>The result mapping\<close>

lemma solve_loop_shaped:
  assumes "solve_loop env ks (self, l) = Inr (self', l')" and "shaped self l" and "ks \<noteq> []"
  shows "shaped self' l' \<and> variable_names self' = variable_names self
         \<and> backend self' = backend self
         \<and> Nsteps l' = Nsteps l \<and> Nvar l' = Nvar l \<and> Nspm l' = Nspm l
         \<and> protocol l' = protocol l \<and> step l' \<in> set ks"
  using assms
proof (induction ks arbitrary: self l)
  case Nil
  then show ?case by simp
next
  case (Cons k ks)
  from Cons.prems(1) obtain s1 l1 stop where
    st: "solve_step env self (l\<lparr>step := k\<rparr>) = Inr (s1, l1, stop)" and
    rest: "(if stop then Inr (s1, l1) else solve_loop env ks (s1, l1)) = Inr (self', l')"
    by (auto split: sum.splits prod.splits)
  have sh0: "shaped self (l\<lparr>step := k\<rparr>)" using Cons.prems(2) by simp
  note P = solve_step_progress [OF st sh0]
  have cs: "Nsteps l1 = Nsteps l" "Nvar l1 = Nvar l" "Nspm l1 = Nspm l" "protocol l1 = protocol l"
    "step l1 = k"
    using P by (simp_all add: same_consts_def)
  show ?case
  proof (cases "stop \<or> ks = []")
    case True
    then have "self' = s1" "l' = l1" using rest by (auto split: if_splits)
    then show ?thesis using P cs by simp
  next
    case False
    then have lp: "solve_loop env ks (s1, l1) = Inr (self', l')" and ne: "ks \<noteq> []"
      using rest by simp_all
    have sh1: "shaped s1 l1" using P by simp
    from Cons.IH [OF lp sh1 ne] P cs show ?thesis by simp
  qed
qed

lemma take_rows_shape:
  assumes "list_all (\<lambda>row. length row = c) M" "n \<le> length M"
  shows "step_by_cell n c (Series2 (take n M))"
  using assms by (simp add: list_all_length)

lemma store_on_fixed:
  assumes sv: "store_variables names obs n
                 [kT \<mapsto> a, kPC \<mapsto> b, kPV \<mapsto> c, kCC \<mapsto> Series2 (take n A)] = Inr out"
    and d: "distinct names"
    and A: "n \<le> length A" "list_all (\<lambda>row. length row = N) A"
    and obs: "\<forall>j<length names. n \<le> length (obs ! j) \<and> list_all (\<lambda>row. length row = N) (obs ! j)"
  shows "dom out = {kT, kPC, kPV, kCC} \<union> set names"
    and "(name = kCC \<or> name \<in> set names) \<Longrightarrow> out name = Some s \<Longrightarrow> step_by_cell n N s"
proof -
  note SV = store_variables_Inr [OF sv]
  show "dom out = {kT, kPC, kPV, kCC} \<union> set names" using SV by auto
  have var: "step_by_cell n N s'" if "name' \<in> set names" "out name' = Some s'" for name' s'
  proof -
    from that obtain j where j: "j < length names" "name' = names ! j"
      by (auto simp add: in_set_conv_nth)
    then have "out name' = Some (Series2 (take n (obs ! j)))"
      using SV d by simp
    moreover have "step_by_cell n N (Series2 (take n (obs ! j)))"
      using obs j by (intro take_rows_shape) simp_all
    ultimately show ?thesis using that by simp
  qed
  assume k: "name = kCC \<or> name \<in> set names" and o: "out name = Some s"
  show "step_by_cell n N s"
  proof (cases "name \<in> set names")
    case True
    then show ?thesis using var o by blast
  next
    case False
    then have "name = kCC" using k by simp
    then have "out name = Some (Series2 (take n A))"
      using SV False by simp
    moreover have "step_by_cell n N (Series2 (take n A))"
      using A by (intro take_rows_shape) simp_all
    ultimately show ?thesis using o by simp
  qed
qed

lemma requested_Some: "requested (Some outs) = set outs"
  by (simp add: requested_def)

text \<open>
  Claim C8, as the code has it. The result mapping of a run that returns has
  exactly the keys \<^verbatim>\<open>Time [s]\<close>, \<^verbatim>\<open>Pack current [A]\<close>,
  \<^verbatim>\<open>Pack terminal voltage [V]\<close>, \<^verbatim>\<open>Cell current [A]\<close>, the two variables that
  \<^verbatim>\<open>solve\<close> always evaluates, \<^verbatim>\<open>Terminal voltage [V]\<close> and
  \<^verbatim>\<open>Measured battery open circuit voltage [V]\<close>, and the requested output
  variables. The entry of the cell current and the entry of every variable is a
  two-dimensional array with a row for each recorded step and an entry for each
  cell in every row.
\<close>

theorem result_keys:
  fixes env :: "'sol collaborators"
  assumes "solve env self args = Inr (out, self')"
  shows "dom out = fixed_keys
                   \<union> {''Terminal voltage [V]'', ''Measured battery open circuit voltage [V]''}
                   \<union> requested (arg_output_variables args)
         \<and> (\<exists>n. 0 < n \<and> n \<le> length (experiment_protocol args)
               \<and> (\<forall>name s.
                     (name = ''Cell current [A]'' \<or> name = ''Terminal voltage [V]''
                        \<or> name = ''Measured battery open circuit voltage [V]''
                        \<or> name \<in> requested (arg_output_variables args))
                     \<and> out name = Some s
                     \<longrightarrow> step_by_cell n (length (filter (\<lambda>b. b) (desc_map ''V'' (arg_netlist args)))) s))"
proof -
  from assms obtain s0 l0 s1 l1 s2 where
    i: "solve_init env self args = Inr (s0, l0)" and
    lp: "solve_loop env [0..<Nsteps l0] (s0, l0) = Inr (s1, l1)" and
    c: "cleanup env (s1\<lparr>logged := logged s1 @ [Notice ''Step solve finished'']\<rparr>) = Inr s2" and
    co: "collect_outputs s2 l1 = Inr out"
    by (rule solve_Inr)
  note I = solve_init_Inr [OF i]
  have ne: "[0..<Nsteps l0] \<noteq> []" using I(2) by simp
  note L = solve_loop_shaped [OF lp I(1) ne]
  note F = cleanup_frame [OF c]
  have sh1: "shaped s1 l1" using L by simp
  have sh: "shaped s2 l1" using sh1 F by (simp add: shaped_def)
  define n where "n = step l1 + 1"
  define N where "N = length (filter (\<lambda>b. b) (desc_map ''V'' (arg_netlist args)))"
  have n: "0 < n" "n \<le> Nsteps l1" using L n_def by simp_all
  have nsteps: "Nsteps l1 = length (experiment_protocol args)"
    using sh L I(8) by (simp add: shaped_def)
  have N: "Nspm l1 = N" using L I(13) N_def by simp
  have vn: "variable_names s2 = make_variable_names (arg_output_variables args)"
    using F L I(9) by simp
  let ?m4 = "[''Time [s]'' \<mapsto> Series1 (record_times l1),
              ''Pack current [A]'' \<mapsto> Series1 (take n (protocol l1)),
              ''Pack terminal voltage [V]'' \<mapsto> Series1 (V_terminal l1),
              ''Cell current [A]'' \<mapsto> Series2 (take n (shm_i_app s2))]"
  have nv: "Nvar l1 = length (variable_names s2)" "length (output_buffer s2) = Nvar l1"
    "length (shm_i_app s2) = Nsteps l1" "list_all (\<lambda>row. length row = N) (shm_i_app s2)"
    using sh N by (simp_all add: shaped_def)
  have arr: "\<forall>j<Nvar l1. length (output_buffer s2 ! j) = Nsteps l1
                \<and> list_all (\<lambda>row. length row = N) (output_buffer s2 ! j)"
    using sh N by (simp add: shaped_def list_all_length)
  have sv: "store_variables (variable_names s2) (output_buffer s2) n ?m4 = Inr out"
    using co nv n_def by (simp add: collect_outputs_def Let_def)
  have d: "distinct (variable_names s2)" unfolding vn by (rule make_variable_names_props(1))
  have names: "set (variable_names s2)
     = {''Terminal voltage [V]'', ''Measured battery open circuit voltage [V]''}
       \<union> requested (arg_output_variables args)"
    unfolding vn by (rule make_variable_names_props(2))
  have A: "n \<le> length (shm_i_app s2)" using nv n by simp
  have obs: "\<forall>j<length (variable_names s2). n \<le> length (output_buffer s2 ! j)
               \<and> list_all (\<lambda>row. length row = N) (output_buffer s2 ! j)"
    using arr nv n by simp
  note G = store_on_fixed [OF sv d A nv(4) obs]
  have keys: "dom out = fixed_keys
                   \<union> {''Terminal voltage [V]'', ''Measured battery open circuit voltage [V]''}
                   \<union> requested (arg_output_variables args)"
    unfolding G(1) names fixed_keys_def by (simp only: Un_assoc)
  have all: "\<forall>name s.
                     (name = ''Cell current [A]'' \<or> name = ''Terminal voltage [V]''
                        \<or> name = ''Measured battery open circuit voltage [V]''
                        \<or> name \<in> requested (arg_output_variables args))
                     \<and> out name = Some s
                     \<longrightarrow> step_by_cell n N s"
  proof (intro allI impI)
    fix name s
    assume h: "(name = ''Cell current [A]'' \<or> name = ''Terminal voltage [V]''
                        \<or> name = ''Measured battery open circuit voltage [V]''
                        \<or> name \<in> requested (arg_output_variables args))
                     \<and> out name = Some s"
    then have "name = ''Cell current [A]'' \<or> name \<in> set (variable_names s2)"
      unfolding names by blast
    then show "step_by_cell n N s" using G(2) h by blast
  qed
  show ?thesis
  proof (intro conjI exI)
    show "dom out = fixed_keys
                   \<union> {''Terminal voltage [V]'', ''Measured battery open circuit voltage [V]''}
                   \<union> requested (arg_output_variables args)"
      by (rule keys)
    show "0 < n" by (rule n(1))
    show "n \<le> length (experiment_protocol args)" using n(2) nsteps by simp
    show "\<forall>name s.
                     (name = ''Cell current [A]'' \<or> name = ''Terminal voltage [V]''
                        \<or> name = ''Measured battery open circuit voltage [V]''
                        \<or> name \<in> requested (arg_output_variables args))
                     \<and> out name = Some s
                     \<longrightarrow> step_by_cell n (length (filter (\<lambda>b. b) (desc_map ''V'' (arg_netlist args)))) s"
      using all unfolding N_def .
  qed
qed

theorem result_keys_witness:
  "\<exists>out self'. solve demo_env (manager_init Ray)
                  (demo_args\<lparr>arg_nproc := 2, arg_output_variables := Some [''Current [A]'']\<rparr>)
                = Inr (out, self')
     \<and> dom out = fixed_keys
                 \<union> {''Terminal voltage [V]'', ''Measured battery open circuit voltage [V]''}
                 \<union> {''Current [A]''}"
proof -
  let ?args = "demo_args\<lparr>arg_nproc := 2, arg_output_variables := Some [''Current [A]'']\<rparr>"
  have "case solve demo_env (manager_init Ray) ?args of Inl e \<Rightarrow> False | Inr r \<Rightarrow> True"
    by code_simp
  then obtain out self' where run: "solve demo_env (manager_init Ray) ?args = Inr (out, self')"
    by (auto split: sum.splits)
  have r: "requested (arg_output_variables ?args) = {''Current [A]''}"
    by (simp add: requested_Some)
  from result_keys [OF run]
  have "dom out = fixed_keys
                   \<union> {''Terminal voltage [V]'', ''Measured battery open circuit voltage [V]''}
                   \<union> requested (arg_output_variables ?args)"
    by (rule conjunct1)
  then have k: "dom out = fixed_keys
                   \<union> {''Terminal voltage [V]'', ''Measured battery open circuit voltage [V]''}
                   \<union> {''Current [A]''}"
    unfolding r .
  show ?thesis
  proof (intro exI conjI)
    show "solve demo_env (manager_init Ray) ?args = Inr (out, self')" by (rule run)
    show "dom out = fixed_keys
                   \<union> {''Terminal voltage [V]'', ''Measured battery open circuit voltage [V]''}
                   \<union> {''Current [A]''}" by (rule k)
  qed
qed

theorem result_keys_counterexample:
  "case solve demo_env (manager_init Casadi) demo_args of
     Inl e \<Rightarrow> False
   | Inr (out, self') \<Rightarrow>
       arg_output_variables demo_args = None
       \<and> out ''Terminal voltage [V]'' \<noteq> None
       \<and> out ''Measured battery open circuit voltage [V]'' \<noteq> None
       \<and> ''Terminal voltage [V]'' \<notin> fixed_keys
       \<and> ''Measured battery open circuit voltage [V]'' \<notin> fixed_keys"
  by code_simp

section \<open>The applied currents\<close>

lemma build_inputs_dict_Current:
  "build_inputs_dict I_b h = Inr d \<Longrightarrow> map Current d = I_b"
proof -
  assume a: "build_inputs_dict I_b h = Inr d"
  then have len: "length I_b \<le> length h"
    and d: "d = map2 (\<lambda>i k. \<lparr>Current = i, Total_heat_transfer_coefficient = k\<rparr>) I_b h"
    by (auto simp add: build_inputs_dict_def split: if_splits)
  have "map Current d = map fst (zip I_b h)"
    unfolding d by (simp add: case_prod_beta comp_def)
  also have "\<dots> = take (min (length I_b) (length h)) I_b" by (rule map_fst_zip_take)
  finally show ?thesis using len by simp
qed

lemma build_inputs_from_Current:
  "build_inputs_from self is = Inr ds \<Longrightarrow>
   length ds = length is
   \<and> (\<forall>p<length is. is ! p < length (split_index self)
          \<and> timestep self < length (shm_i_app self)
          \<and> map Current (ds ! p)
              = map ((!) (shm_i_app self ! timestep self)) (split_index self ! (is ! p)))"
proof (induction "is" arbitrary: ds)
  case Nil
  then show ?case by simp
next
  case (Cons i "is")
  from Cons.prems obtain I_app h d ds' where
    ia: "actor_i_app self i = Inr I_app" and
    bd: "build_inputs_dict I_app h = Inr d" and
    rest: "build_inputs_from self is = Inr ds'" and
    ds: "ds = d # ds'"
    by (auto split: sum.splits)
  have hd: "i < length (split_index self) \<and> timestep self < length (shm_i_app self)
            \<and> I_app = map ((!) (shm_i_app self ! timestep self)) (split_index self ! i)"
    using ia by (auto simp add: actor_i_app_def get_def take_indices_def split: sum.splits if_splits)
  have cur: "map Current d = I_app" using bd by (rule build_inputs_dict_Current)
  show ?case
  proof (intro conjI allI impI)
    show "length ds = length (i # is)" using Cons.IH [OF rest] ds by simp
    fix p assume p: "p < length (i # is)"
    show "(i # is) ! p < length (split_index self)"
      using Cons.IH [OF rest] hd p by (cases p) simp_all
    show "timestep self < length (shm_i_app self)" using hd by simp
    show "map Current (ds ! p)
              = map ((!) (shm_i_app self ! timestep self)) (split_index self ! ((i # is) ! p))"
      using Cons.IH [OF rest] hd cur ds p by (cases p) simp_all
  qed
qed

lemma build_inputs_Current:
  assumes "build_inputs self = Inr ins" "i < length ins"
  shows "map Current (ins ! i) = map ((!) (shm_i_app self ! timestep self)) (split_index self ! i)"
proof -
  from assms(1) obtain as where "actors self = Some as"
    "build_inputs_from self [0..<length as] = Inr ins"
    by (auto simp add: build_inputs_def split: option.splits)
  from build_inputs_from_Current [OF this(2)] assms(2) show ?thesis by simp
qed

lemma build_inputs_length:
  "build_inputs self = Inr ins \<Longrightarrow> actors self = Some as \<Longrightarrow> length ins = length as"
  using build_inputs_from_Current [of self "[0..<length as]" ins]
  by (simp add: build_inputs_def)

section \<open>The workers of a pass\<close>

lemma setup_each_length:
  "setup_each env as ns I_init htc_init names np = Inr as' \<Longrightarrow> length as' = length as"
proof (induction as arbitrary: ns as')
  case Nil
  then show ?case by simp
next
  case (Cons a as)
  then show ?case by (auto split: list.splits sum.splits)
qed

lemma setup_actors_actors:
  assumes "setup_actors env self np I_init htc_init = Inr self'"
  shows "\<exists>as. actors self' = Some as \<and> length as = (if backend self = Casadi then 1 else np)"
  using assms
  by (auto simp add: setup_actors_def Let_def simp del: setup_each.simps
      dest!: setup_each_length split: backend.splits sum.splits)

lemma solve_init_actors:
  assumes "solve_init env self args = Inr (s, l)"
  shows "\<exists>as. actors s = Some as
              \<and> length as = (if backend self = Casadi then 1 else arg_nproc args)"
proof -
  from assms obtain s6 I_init htc_init s7 where
    sa: "setup_actors env s6 (arg_nproc args) I_init htc_init = Inr s7" and
    b: "backend s6 = backend self" and
    s: "s = s7\<lparr>logged := logged s7 @ [Notice ''Starting step solve'']\<rparr>"
    by (auto simp add: solve_init_def Let_def dest!: split_models_frame
        split: sum.splits prod.splits option.splits)
  from setup_actors_actors [OF sa] b s show ?thesis by simp
qed

lemma step_each_fed:
  "step_each env as ins = Inr (as', evs) \<Longrightarrow>
   length as' = length as \<and> length evs = length as \<and> length as \<le> length ins
   \<and> (\<forall>i<length as. actor_step env (as ! i) (ins ! i) = Inr (as' ! i, evs ! i))"
proof (induction as arbitrary: ins as' evs)
  case Nil
  then show ?case by simp
next
  case (Cons a as)
  from Cons.prems obtain i ins' a' ev as'' evs' where
    ins: "ins = i # ins'" and
    st: "actor_step env a i = Inr (a', ev)" and
    rest: "step_each env as ins' = Inr (as'', evs')" and
    res: "as' = a' # as''" "evs = ev # evs'"
    by (auto split: list.splits sum.splits prod.splits)
  note IH = Cons.IH [OF rest]
  show ?case
  proof (intro conjI allI impI)
    show "length as' = length (a # as)" using IH res by simp
    show "length evs = length (a # as)" using IH res by simp
    show "length (a # as) \<le> length ins" using IH ins by simp
    fix j assume "j < length (a # as)"
    then show "actor_step env ((a # as) ! j) (ins ! j) = Inr (as' ! j, evs ! j)"
      using IH st ins res by (cases j) simp_all
  qed
qed

lemma step_actors_fed:
  assumes "step_actors env self = Inr self'"
  shows "\<exists>as as' ins evs.
           actors self = Some as \<and> actors self' = Some as' \<and> build_inputs self = Inr ins
         \<and> length as' = length as
         \<and> (\<forall>i<length as. (backend self = Casadi \<longrightarrow> i = 0) \<longrightarrow>
                actor_step env (as ! i) (ins ! i) = Inr (as' ! i, evs ! i))"
proof (cases "backend self = Casadi")
  case True
  with assms obtain as a ins i a' events where
    f: "actors self = Some as" "get as 0 = Inr a" "build_inputs self = Inr ins"
    "get ins 0 = Inr i" "actor_step env a i = Inr (a', events)"
    "actors self' = Some (as[0 := a'])"
    by (auto simp add: step_actors_def Let_def
        split: sum.splits option.splits if_splits prod.splits)
  have g: "0 < length as" "a = as ! 0" "i = ins ! 0"
    using f(2,4) by (auto simp add: get_def split: if_splits)
  show ?thesis
  proof (intro exI conjI allI impI)
    show "actors self = Some as" by (rule f(1))
    show "actors self' = Some (as[0 := a'])" by (rule f(6))
    show "build_inputs self = Inr ins" by (rule f(3))
    show "length (as[0 := a']) = length as" by simp
    fix j assume "j < length as" "backend self = Casadi \<longrightarrow> j = 0"
    then have "j = 0" using True by simp
    then show "actor_step env (as ! j) (ins ! j) = Inr (as[0 := a'] ! j, [events] ! j)"
      using f(5) g by simp
  qed
next
  case False
  with assms obtain as ins as' events where
    f: "build_inputs self = Inr ins" "actors self = Some as"
    "step_each env as ins = Inr (as', events)" "actors self' = Some as'"
    by (auto simp add: step_actors_def Let_def
        split: backend.splits sum.splits option.splits if_splits prod.splits)
  note E = step_each_fed [OF f(3)]
  show ?thesis
  proof (intro exI conjI allI impI)
    show "actors self = Some as" by (rule f(2))
    show "actors self' = Some as'" by (rule f(4))
    show "build_inputs self = Inr ins" by (rule f(1))
    show "length as' = length as" using E by simp
    fix j assume "j < length as"
    then show "actor_step env (as ! j) (ins ! j) = Inr (as' ! j, events ! j)"
      using E by simp
  qed
qed

lemma solve_step_workers:
  assumes "solve_step env self l = Inr (self', l', stop)"
  shows "map_option length (actors self') = map_option length (actors self)
         \<and> backend self' = backend self \<and> split_index self' = split_index self
         \<and> timestep self' = (if stop then timestep self else Suc (timestep self))"
proof -
  from assms obtain s1 s2 where
    sa: "step_actors env self = Inr s1" and
    go: "get_actor_output s1 (step l) = Inr s2" and
    uc: "update_circuit env s2 l = Inr (self', l', stop)"
    by (auto simp add: solve_step_def split: sum.splits)
  note F1 = step_actors_frame [OF sa]
  note F2 = get_actor_output_frame [OF go]
  from step_actors_fed [OF sa]
  have a1: "map_option length (actors s1) = map_option length (actors self)" by auto
  from uc obtain temp_v nl l1 A where
    c: "(self', l', stop) = check_cutoffs (s2\<lparr>netlist := nl, shm_i_app := A\<rparr>) l1 temp_v"
    by (rule update_circuit_Inr)
  note C = check_cutoffs_eq [OF c [symmetric]]
  show ?thesis using F1 F2 C a1 by simp
qed

lemma solve_step_currents:
  assumes st: "solve_step env self l = Inr (self', l', stop)"
  shows "time l' = fl64 (time l + dt self) \<and> end_time l' = end_time l \<and> dt self' = dt self"
    and "time l' < end_time l' \<Longrightarrow>
           Suc (step l) < length (shm_i_app self)
           \<and> shm_i_app self' ! Suc (step l) = map (\<lambda>x. x * - 1) (I_batt l')"
    and "time l' \<le> end_time l' \<Longrightarrow>
           I_batt l' = snd (solve_circuit_vectorized env (netlist self'))"
    and "\<not> time l' < end_time l' \<Longrightarrow> shm_i_app self' = shm_i_app self"
    and "r \<noteq> Suc (step l) \<Longrightarrow> shm_i_app self' ! r = shm_i_app self ! r"
proof -
  from st obtain s1 s2 where
    sa: "step_actors env self = Inr s1" and
    go: "get_actor_output s1 (step l) = Inr s2" and
    uc: "update_circuit env s2 l = Inr (self', l', stop)"
    by (auto simp add: solve_step_def split: sum.splits)
  note F1 = step_actors_frame [OF sa]
  note F2 = get_actor_output_frame [OF go]
  from uc obtain temp_v nl l1 A where
    rc: "resolve_circuit env nl (l\<lparr>time := fl64 (time l + dt s2)\<rparr>) = Inr l1" and
    nc: "next_currents (shm_i_app s2) l1 = Inr A" and
    c: "(self', l', stop) = check_cutoffs (s2\<lparr>netlist := nl, shm_i_app := A\<rparr>) l1 temp_v"
    by (rule update_circuit_Inr)
  note R = resolve_circuit_Inr [OF rc]
  note N = next_currents_Inr [OF nc]
  note C = check_cutoffs_eq [OF c [symmetric]]
  have d2: "dt s2 = dt self" "shm_i_app s2 = shm_i_app self" using F1 F2 by simp_all
  have cst: "end_time l1 = end_time l" "step l1 = step l" "time l1 = fl64 (time l + dt self)"
    using R d2 by (simp_all add: same_consts_def)
  have nl: "netlist self' = nl" "shm_i_app self' = A" "l' = l1" "dt self' = dt self"
    using C d2 by simp_all
  show "time l' = fl64 (time l + dt self) \<and> end_time l' = end_time l \<and> dt self' = dt self"
    using nl cst by simp
  show "time l' < end_time l' \<Longrightarrow>
           Suc (step l) < length (shm_i_app self)
           \<and> shm_i_app self' ! Suc (step l) = map (\<lambda>x. x * - 1) (I_batt l')"
    using N nl cst d2 by simp
  show "time l' \<le> end_time l' \<Longrightarrow>
           I_batt l' = snd (solve_circuit_vectorized env (netlist self'))"
    using R nl cst by simp
  show "\<not> time l' < end_time l' \<Longrightarrow> shm_i_app self' = shm_i_app self"
    using N nl d2 by simp
  show "r \<noteq> Suc (step l) \<Longrightarrow> shm_i_app self' ! r = shm_i_app self ! r"
    using N nl d2 cst by (cases "time l1 < end_time l1") simp_all
qed

section \<open>The passes of a run\<close>

text \<open>
  \<^verbatim>\<open>timestep\<close> counts the passes that have reached the end of the body of the
  loop: a run of the loop over the steps from \<open>a\<close> to \<open>b - 1\<close> that starts with
  \<^verbatim>\<open>timestep\<close> at \<open>a\<close> and ends with it at \<open>b\<close> has made every one of these
  passes, and none of them has left the loop. What the start of the loop has and
  every such pass keeps, the end of the loop has.
\<close>

lemma solve_loop_passes:
  assumes run: "solve_loop env [a..<b] (s, l) = Inr (s', l')"
    and ts: "timestep s = a" "timestep s' = b"
    and base: "P a s l"
    and step: "\<And>k s l s1 l1. a \<le> k \<Longrightarrow> k < b \<Longrightarrow> P k s l \<Longrightarrow> timestep s = k \<Longrightarrow>
                 solve_step env s (l\<lparr>step := k\<rparr>) = Inr (s1, l1, False) \<Longrightarrow> P (Suc k) s1 l1"
  shows "P b s' l'"
  using run ts base step
proof (induction "b - a" arbitrary: a s l)
  case 0
  then have e: "[a..<b] = []" by simp
  from "0.prems"(1) have "s' = s" "l' = l" unfolding e by simp_all
  then show ?case using "0.prems"(2,3,4) by simp
next
  case (Suc m)
  then have lt: "a < b" by simp
  then have upt: "[a..<b] = a # [Suc a..<b]" by (simp add: upt_conv_Cons)
  from Suc.prems(1) obtain s1 l1 stop where
    st: "solve_step env s (l\<lparr>step := a\<rparr>) = Inr (s1, l1, stop)" and
    rest: "(if stop then Inr (s1, l1) else solve_loop env [Suc a..<b] (s1, l1)) = Inr (s', l')"
    unfolding upt by (auto split: sum.splits prod.splits)
  note W = solve_step_workers [OF st]
  have nstop: "\<not> stop"
  proof
    assume stop
    then have "s' = s1" using rest by simp
    then have "timestep s' = a" using W \<open>stop\<close> Suc.prems(2) by simp
    then show False using Suc.prems(3) lt by simp
  qed
  then have lp: "solve_loop env [Suc a..<b] (s1, l1) = Inr (s', l')" using rest by simp
  have st': "solve_step env s (l\<lparr>step := a\<rparr>) = Inr (s1, l1, False)" using st nstop by simp
  have t1: "timestep s1 = Suc a" using W nstop Suc.prems(2) by simp
  have P1: "P (Suc a) s1 l1"
    using Suc.prems(5) [OF le_refl lt Suc.prems(4) Suc.prems(2) st'] .
  have m: "m = b - Suc a" using Suc.hyps(2) by simp
  show ?case
  proof (rule Suc.hyps(1) [OF m lp t1 Suc.prems(3) P1])
    fix k s l s1 l1
    assume "Suc a \<le> k" "k < b" "P k s l" "timestep s = k"
      "solve_step env s (l\<lparr>step := k\<rparr>) = Inr (s1, l1, False)"
    then show "P (Suc k) s1 l1" using Suc.prems(5) [of k s l s1 l1] by simp
  qed
qed

text \<open>
  Claim C10. Take a run of \<^verbatim>\<open>solve\<close> after its initialisation and \<open>k\<close> passes of
  the loop that have reached the end of the body (\<open>k = 0\<close> is the state before the
  first pass), the last of them with \<^verbatim>\<open>time < end_time\<close> at line 202, so that it
  has written the row of the next step. Then \<^verbatim>\<open>I_batt\<close> holds the branch currents
  that the circuit solver has returned for the netlist as it is now, row \<open>k\<close> of
  the current buffer is their negation, and when the workers step in pass \<open>k\<close>,
  every worker \<open>i\<close> of the backend (one for Casadi, \<^verbatim>\<open>nproc\<close> otherwise) is
  stepped by \<open>actor_step\<close> on inputs whose currents are the negated branch currents
  at the cells \<^verbatim>\<open>split_index[i]\<close> of the worker, and the new state of the worker is
  what this step has returned.
\<close>

theorem applied_current_negated:
  fixes env :: "'sol collaborators"
  assumes init: "solve_init env self args = Inr (s0, l0)"
    and run: "solve_loop env [0..<k] (s0, l0) = Inr (s, l)"
    and passes: "timestep s = k"
    and wrote: "k = 0 \<or> time l < end_time l"
  shows "I_batt l = snd (solve_circuit_vectorized env (netlist s))
       \<and> shm_i_app s ! k = map (\<lambda>x. x * - 1) (I_batt l)
       \<and> (\<forall>s1. step_actors env s = Inr s1 \<longrightarrow>
            (\<exists>as as' ins evs.
                actors s = Some as \<and> actors s1 = Some as'
              \<and> length as = (if backend self = Casadi then 1 else arg_nproc args)
              \<and> length as' = length as \<and> build_inputs s = Inr ins
              \<and> (\<forall>i<length as.
                    actor_step env (as ! i) (ins ! i) = Inr (as' ! i, evs ! i)
                  \<and> map Current (ins ! i)
                      = map ((!) (map (\<lambda>x. x * - 1) (I_batt l))) (split_index s ! i))))"
proof -
  define n where "n = (if backend self = Casadi then 1 else arg_nproc args)"
  define P where "P = (\<lambda>j (s :: 'sol manager) (l :: solve_locals).
      (j = 0 \<or> time l < end_time l \<longrightarrow> shm_i_app s ! j = map (\<lambda>x. x * - 1) (I_batt l))
    \<and> (j = 0 \<or> time l \<le> end_time l \<longrightarrow>
          I_batt l = snd (solve_circuit_vectorized env (netlist s)))
    \<and> map_option length (actors s) = Some n \<and> backend s = backend self)"
  note I = solve_init_Inr [OF init]
  have base: "P 0 s0 l0"
    using I(12,14,15) solve_init_netlist(1) [OF init] solve_init_actors [OF init]
    unfolding P_def n_def by auto
  have step: "P (Suc j) s2 l2"
    if "P j s1 l1" and st: "solve_step env s1 (l1\<lparr>step := j\<rparr>) = Inr (s2, l2, False)"
    for j s1 l1 s2 l2
  proof -
    note C = solve_step_currents [OF st]
    note W = solve_step_workers [OF st]
    show ?thesis
      using that(1) C(2,3) W unfolding P_def by simp
  qed
  have "P k s l"
    by (rule solve_loop_passes [where P = P, OF run I(16) passes base]) (rule step)
  then have row: "shm_i_app s ! k = map (\<lambda>x. x * - 1) (I_batt l)"
    and ib: "I_batt l = snd (solve_circuit_vectorized env (netlist s))"
    and na: "map_option length (actors s) = Some n" and b: "backend s = backend self"
    using wrote unfolding P_def by auto
  have fed: "\<exists>as as' ins evs.
                actors s = Some as \<and> actors s1 = Some as'
              \<and> length as = (if backend self = Casadi then 1 else arg_nproc args)
              \<and> length as' = length as \<and> build_inputs s = Inr ins
              \<and> (\<forall>i<length as.
                    actor_step env (as ! i) (ins ! i) = Inr (as' ! i, evs ! i)
                  \<and> map Current (ins ! i)
                      = map ((!) (map (\<lambda>x. x * - 1) (I_batt l))) (split_index s ! i))"
    if sa: "step_actors env s = Inr s1" for s1
  proof -
    from step_actors_fed [OF sa] obtain as as' ins evs where
      f: "actors s = Some as" "actors s1 = Some as'" "build_inputs s = Inr ins"
      "length as' = length as"
      "\<forall>i<length as. (backend s = Casadi \<longrightarrow> i = 0) \<longrightarrow>
           actor_step env (as ! i) (ins ! i) = Inr (as' ! i, evs ! i)"
      by blast
    have len: "length as = n" using na f(1) by simp
    have li: "length ins = length as" using f(3,1) by (rule build_inputs_length)
    show ?thesis
    proof (intro exI conjI allI impI)
      show "actors s = Some as" by (rule f(1))
      show "actors s1 = Some as'" by (rule f(2))
      show "length as = (if backend self = Casadi then 1 else arg_nproc args)"
        using len n_def by simp
      show "length as' = length as" by (rule f(4))
      show "build_inputs s = Inr ins" by (rule f(3))
      fix i assume i: "i < length as"
      have "backend s = Casadi \<longrightarrow> i = 0" using i len b n_def by (auto split: if_splits)
      then show "actor_step env (as ! i) (ins ! i) = Inr (as' ! i, evs ! i)"
        using f(5) i by simp
      have "map Current (ins ! i)
              = map ((!) (shm_i_app s ! timestep s)) (split_index s ! i)"
        using f(3) i li by (intro build_inputs_Current) simp_all
      then show "map Current (ins ! i)
                  = map ((!) (map (\<lambda>x. x * - 1) (I_batt l))) (split_index s ! i)"
        using row passes by simp
    qed
  qed
  show ?thesis using ib row fed by blast
qed

theorem applied_current_negated_witness:
  "\<exists>s0 l0 s l s1 as ins.
      solve_init demo_env (manager_init Ray) (demo_args\<lparr>arg_nproc := 2\<rparr>) = Inr (s0, l0)
    \<and> solve_loop demo_env [0..<1] (s0, l0) = Inr (s, l)
    \<and> timestep s = 1 \<and> time l < end_time l
    \<and> I_batt l = [- 1, - 1] \<and> shm_i_app s ! 1 = [1, 1]
    \<and> step_actors demo_env s = Inr s1
    \<and> actors s = Some as \<and> length as = 2 \<and> build_inputs s = Inr ins
    \<and> map Current (ins ! 0) = [1] \<and> map Current (ins ! 1) = [1]"
proof -
  define args where "args = demo_args\<lparr>arg_nproc := 2\<rparr>"
  define i where "i = solve_init demo_env (manager_init Ray :: (nat \<times> nat) manager) args"
  define s0 where "s0 = fst (projr i)"
  define l0 where "l0 = snd (projr i)"
  define lp where "lp = solve_loop demo_env [0..<1] (s0, l0)"
  define s where "s = fst (projr lp)"
  define l where "l = snd (projr lp)"
  define sa where "sa = step_actors demo_env s"
  note defs = sa_def s_def l_def lp_def s0_def l0_def i_def args_def
  have "\<not> isl i" unfolding defs by code_simp
  then have i: "solve_init demo_env (manager_init Ray) args = Inr (s0, l0)"
    unfolding s0_def l0_def i_def by simp
  have "\<not> isl lp" unfolding defs by code_simp
  then have lp: "solve_loop demo_env [0..<1] (s0, l0) = Inr (s, l)"
    unfolding s_def l_def lp_def by simp
  have "\<not> isl sa" unfolding defs by code_simp
  then have sa: "step_actors demo_env s = Inr (projr sa)" unfolding sa_def by simp
  have f: "timestep s = 1" "time l < end_time l"
    "snd (demo_circuit (netlist s)) = [- 1, - 1]" "split_index s = [[0], [1]]"
    unfolding defs by code_simp+
  have e: "solve_circuit_vectorized demo_env = demo_circuit" by (simp add: demo_env_def)
  have n: "(if backend (manager_init Ray :: (nat \<times> nat) manager) = Casadi then 1
            else arg_nproc args) = 2"
    by (simp add: manager_init_def args_def)
  have w: "(1 :: nat) = 0 \<or> time l < end_time l" using f(2) by simp
  note T = applied_current_negated [OF i lp f(1) w]
  have ib: "I_batt l = [- 1, - 1]" using T e f(3) by simp
  have row: "shm_i_app s ! 1 = [1, 1]" using T ib by simp
  from T sa obtain as as' ins evs where
    g: "actors s = Some as"
    "length as = (if backend (manager_init Ray :: (nat \<times> nat) manager) = Casadi then 1
                  else arg_nproc args)"
    "build_inputs s = Inr ins"
    "\<forall>i<length as. actor_step demo_env (as ! i) (ins ! i) = Inr (as' ! i, evs ! i)
         \<and> map Current (ins ! i)
             = map ((!) (map (\<lambda>x. x * - 1) (I_batt l))) (split_index s ! i)"
    by blast
  have len: "length as = 2" using g(2) n by simp
  have c0: "map Current (ins ! 0) = [1]" using g(4) len ib f(4) by simp
  have c1: "map Current (ins ! 1) = [1]" using g(4) len ib f(4) by simp
  show ?thesis
  proof (intro exI conjI)
    show "solve_init demo_env (manager_init Ray) (demo_args\<lparr>arg_nproc := 2\<rparr>) = Inr (s0, l0)"
      using i unfolding args_def .
    show "solve_loop demo_env [0..<1] (s0, l0) = Inr (s, l)" by (rule lp)
    show "timestep s = 1" by (rule f(1))
    show "time l < end_time l" by (rule f(2))
    show "I_batt l = [- 1, - 1]" by (rule ib)
    show "shm_i_app s ! 1 = [1, 1]" by (rule row)
    show "step_actors demo_env s = Inr (projr sa)" by (rule sa)
    show "actors s = Some as" by (rule g(1))
    show "length as = 2" by (rule len)
    show "build_inputs s = Inr ins" by (rule g(3))
    show "map Current (ins ! 0) = [1]" by (rule c0)
    show "map Current (ins ! 1) = [1]" by (rule c1)
  qed
qed
section \<open>Releasing the workers\<close>

lemma kill_each_None:
  "(\<forall>i\<in>set is. ray_kill env i = None) \<Longrightarrow> kill_each env is = None"
  by (induction "is") simp_all

lemma split_models_runtime:
  "split_models self N np h = Inl (e, self') \<Longrightarrow> runtime_up self' = runtime_up self"
  by (auto simp add: split_models_def Let_def split: backend.splits sum.splits)

lemma setup_actors_runtime:
  "setup_actors env self np I_init htc_init = Inr self' \<Longrightarrow> runtime_up self \<Longrightarrow> runtime_up self'"
  "setup_actors env self np I_init htc_init = Inl (e, self') \<Longrightarrow> runtime_up self \<Longrightarrow> runtime_up self'"
  by (auto simp add: setup_actors_def Let_def split: backend.splits sum.splits)

lemma step_actors_runtime:
  "step_actors env self = Inl (e, self') \<Longrightarrow> runtime_up self' = runtime_up self"
  by (auto simp add: step_actors_def Let_def
      split: backend.splits sum.splits option.splits if_splits prod.splits)

lemma get_actor_output_runtime:
  "get_actor_output self st = Inl (e, self') \<Longrightarrow> runtime_up self' = runtime_up self"
  by (auto simp add: get_actor_output_def split: backend.splits sum.splits option.splits)

lemma update_circuit_runtime:
  "update_circuit env self l = Inr (self', l', stop) \<Longrightarrow> runtime_up self' = runtime_up self"
  "update_circuit env self l = Inl (e, self') \<Longrightarrow> runtime_up self' = runtime_up self"
proof -
  assume "update_circuit env self l = Inr (self', l', stop)"
  then obtain temp_v nl l1 A where
    c: "(self', l', stop) = check_cutoffs (self\<lparr>netlist := nl, shm_i_app := A\<rparr>) l1 temp_v"
    by (rule update_circuit_Inr)
  show "runtime_up self' = runtime_up self"
    using check_cutoffs_eq [OF c [symmetric]] by simp
next
  assume "update_circuit env self l = Inl (e, self')"
  then show "runtime_up self' = runtime_up self"
    by (auto simp add: update_circuit_def Let_def split: sum.splits prod.splits)
qed

lemma solve_step_runtime:
  "solve_step env self l = Inr (self', l', stop) \<Longrightarrow> runtime_up self' = runtime_up self"
  "solve_step env self l = Inl (e, self') \<Longrightarrow> runtime_up self' = runtime_up self"
proof -
  assume "solve_step env self l = Inr (self', l', stop)"
  then obtain s1 s2 where
    s: "step_actors env self = Inr s1" "get_actor_output s1 (step l) = Inr s2"
    "update_circuit env s2 l = Inr (self', l', stop)"
    by (auto simp add: solve_step_def split: sum.splits)
  show "runtime_up self' = runtime_up self"
    using step_actors_frame [OF s(1)] get_actor_output_frame [OF s(2)]
      update_circuit_runtime(1) [OF s(3)] by simp
next
  assume a: "solve_step env self l = Inl (e, self')"
  show "runtime_up self' = runtime_up self"
  proof (cases "step_actors env self")
    case (Inl x)
    then have "step_actors env self = Inl (e, self')" using a by (simp add: solve_step_def)
    then show ?thesis by (rule step_actors_runtime)
  next
    case (Inr s1)
    note F1 = step_actors_frame [OF Inr]
    show ?thesis
    proof (cases "get_actor_output s1 (step l)")
      case (Inl x)
      then have "get_actor_output s1 (step l) = Inl (e, self')"
        using a Inr by (simp add: solve_step_def)
      then have "runtime_up self' = runtime_up s1" by (rule get_actor_output_runtime)
      then show ?thesis using F1 by simp
    next
      case s2: (Inr s2)
      then have "update_circuit env s2 l = Inl (e, self')"
        using a Inr by (simp add: solve_step_def)
      then have "runtime_up self' = runtime_up s2" by (rule update_circuit_runtime(2))
      then show ?thesis using F1 get_actor_output_frame [OF s2] by simp
    qed
  qed
qed

lemma solve_loop_runtime:
  "solve_loop env ks (self, l) = Inr (self', l') \<Longrightarrow> runtime_up self' = runtime_up self"
  "solve_loop env ks (self, l) = Inl (e, self') \<Longrightarrow> runtime_up self' = runtime_up self"
proof (induction ks arbitrary: self l)
  case Nil
  { case 1 then show ?case by simp }
  { case 2 then show ?case by simp }
next
  case (Cons k ks)
  { case 1
    then show ?case
      using Cons.IH(1) solve_step_runtime(1) [of env self "l\<lparr>step := k\<rparr>"]
      by (fastforce split: sum.splits prod.splits if_splits) }
  { case 2
    then show ?case
      using Cons.IH(2) solve_step_runtime [of env self "l\<lparr>step := k\<rparr>"]
      by (fastforce split: sum.splits prod.splits if_splits) }
qed

lemma solve_init_runtime:
  "solve_init env self args = Inr (self', l) \<Longrightarrow> runtime_up self \<Longrightarrow> runtime_up self'"
  "solve_init env self args = Inl (e, self') \<Longrightarrow> runtime_up self \<Longrightarrow> runtime_up self'"
proof -
  let ?N = "length (filter (\<lambda>b. b) (desc_map ''V'' (arg_netlist args)))"
  let ?Ns = "length (experiment_protocol args)"
  let ?names = "make_variable_names (arg_output_variables args)"
  let ?sm = "split_models (self\<lparr>netlist := arg_netlist args\<rparr>) ?N (arg_nproc args) (arg_htc args)"
  let ?s6 = "\<lambda>s2 A. s2\<lparr>dt := experiment_period args, variable_names := ?names,
                          output_buffer := np_zeros3 (length ?names) ?Ns ?N, shm_i_app := A,
                          timestep := 0\<rparr>"
  { assume i: "solve_init env self args = Inr (self', l)" and up: "runtime_up self"
    from i have "\<exists>s2 A I_init htc_init s7.
        ?sm = Inr s2
      \<and> setup_actors env (?s6 s2 A) (arg_nproc args) I_init htc_init = Inr s7
      \<and> self' = s7\<lparr>logged := logged s7 @ [Notice ''Starting step solve'']\<rparr>"
      by (auto simp add: solve_init_def Let_def split: sum.splits prod.splits option.splits)
    then obtain s2 A I_init htc_init s7 where
      sm: "?sm = Inr s2" and
      sa: "setup_actors env (?s6 s2 A) (arg_nproc args) I_init htc_init = Inr s7" and
      s: "self' = s7\<lparr>logged := logged s7 @ [Notice ''Starting step solve'']\<rparr>"
      by blast
    have "runtime_up (?s6 s2 A)" using split_models_frame [OF sm] up by simp
    then have "runtime_up s7" by (rule setup_actors_runtime(1) [OF sa])
    then show "runtime_up self'" using s by simp }
  { assume i: "solve_init env self args = Inl (e, self')" and up: "runtime_up self"
    show "runtime_up self'"
    proof (cases ?sm)
      case (Inl x)
      then have "?sm = Inl (e, self')" using i by (simp add: solve_init_def Let_def)
      then have "runtime_up self' = runtime_up (self\<lparr>netlist := arg_netlist args\<rparr>)"
        by (rule split_models_runtime)
      then show ?thesis using up by simp
    next
      case (Inr s2)
      note F = split_models_frame [OF Inr]
      from i Inr have "(runtime_up self' = runtime_up s2)
          \<or> (\<exists>A I_init htc_init.
                setup_actors env (?s6 s2 A) (arg_nproc args) I_init htc_init = Inl (e, self'))"
        by (auto simp add: solve_init_def Let_def split: sum.splits prod.splits option.splits)
      then show ?thesis
      proof
        assume "runtime_up self' = runtime_up s2"
        then show ?thesis using up F by simp
      next
        assume "\<exists>A I_init htc_init.
                setup_actors env (?s6 s2 A) (arg_nproc args) I_init htc_init = Inl (e, self')"
        then obtain A I_init htc_init where
          sa: "setup_actors env (?s6 s2 A) (arg_nproc args) I_init htc_init = Inl (e, self')"
          by blast
        have "runtime_up (?s6 s2 A)" using up F by simp
        then show ?thesis by (rule setup_actors_runtime(2) [OF sa])
      qed
    qed }
qed

lemma kill_each_first:
  assumes "\<forall>j\<in>set js. ray_kill env j = None" "ray_kill env i = Some e"
  shows "kill_each env (js @ i # ks) = Some e"
  using assms by (induction js) simp_all

lemma cleanup_released:
  "cleanup env self = Inr self' \<Longrightarrow> backend self \<noteq> Casadi \<Longrightarrow> \<not> runtime_up self'"
  by (auto simp add: cleanup_def Let_def split: backend.splits option.splits)

lemma cleanup_raises:
  "cleanup env self = Inl (e, self') \<Longrightarrow> runtime_up self' = runtime_up self"
  by (auto simp add: cleanup_def Let_def split: backend.splits option.splits)

lemma solve_Inl:
  assumes "solve env self args = Inl (e, self')"
  obtains
    (init) "solve_init env self args = Inl (e, self')"
  | (loop) s0 l0 where "solve_init env self args = Inr (s0, l0)"
      "solve_loop env [0..<Nsteps l0] (s0, l0) = Inl (e, self')"
  | (clean) s0 l0 s1 l1 where "solve_init env self args = Inr (s0, l0)"
      "solve_loop env [0..<Nsteps l0] (s0, l0) = Inr (s1, l1)"
      "cleanup env (s1\<lparr>logged := logged s1 @ [Notice ''Step solve finished'']\<rparr>) = Inl (e, self')"
  | (collect) s0 l0 s1 l1 where "solve_init env self args = Inr (s0, l0)"
      "solve_loop env [0..<Nsteps l0] (s0, l0) = Inr (s1, l1)"
      "cleanup env (s1\<lparr>logged := logged s1 @ [Notice ''Step solve finished'']\<rparr>) = Inr self'"
      "collect_outputs self' l1 = Inl e"
  using assms by (auto simp add: solve_def Let_def split: sum.splits prod.splits)

lemma solve_released:
  assumes "solve env self args = Inr (out, self')" "backend self \<noteq> Casadi"
  shows "\<not> runtime_up self'"
proof -
  from assms(1) obtain s0 l0 s1 l1 s2 where
    i: "solve_init env self args = Inr (s0, l0)" and
    lp: "solve_loop env [0..<Nsteps l0] (s0, l0) = Inr (s1, l1)" and
    c: "cleanup env (s1\<lparr>logged := logged s1 @ [Notice ''Step solve finished'']\<rparr>) = Inr s2" and
    o: "self' = s2\<lparr>all_output := out\<rparr>"
    by (rule solve_Inr)
  note I = solve_init_Inr [OF i]
  have ne: "[0..<Nsteps l0] \<noteq> []" using I(2) by simp
  have "backend s1 = backend self" using solve_loop_shaped [OF lp I(1) ne] I(12) by simp
  then have "backend (s1\<lparr>logged := logged s1 @ [Notice ''Step solve finished'']\<rparr>) \<noteq> Casadi"
    using assms(2) by simp
  from cleanup_released [OF c this] o show ?thesis by simp
qed

lemma solve_raises:
  assumes "solve env self args = Inl (e, self')" "runtime_up self"
  shows "runtime_up self'"
  using assms(1)
proof (cases rule: solve_Inl)
  case init
  then show ?thesis using assms(2) by (rule solve_init_runtime(2))
next
  case (loop s0 l0)
  have "runtime_up s0" using loop(1) assms(2) by (rule solve_init_runtime(1))
  then show ?thesis using solve_loop_runtime(2) [OF loop(2)] by simp
next
  case (clean s0 l0 s1 l1)
  have "runtime_up s0" using clean(1) assms(2) by (rule solve_init_runtime(1))
  then have "runtime_up s1" using solve_loop_runtime(1) [OF clean(2)] by simp
  then show ?thesis using cleanup_raises [OF clean(3)] by simp
next
  case (collect s0 l0 s1 l1)
  note I = solve_init_Inr [OF collect(1)]
  have ne: "[0..<Nsteps l0] \<noteq> []" using I(2) by simp
  have "shaped s1 l1" using solve_loop_shaped [OF collect(2) I(1) ne] by simp
  then have "shaped self' l1" using cleanup_frame [OF collect(3)] by (simp add: shaped_def)
  then obtain out where "collect_outputs self' l1 = Inr out"
    using collect_outputs_total by blast
  then show ?thesis using collect(4) by simp
qed

text \<open>
  Claim C9, as the code has it. No method of the managers catches an exception.
  The teardown of Casadi does nothing and returns. The teardown of Ray kills the
  workers in their order and then shuts Ray down: it returns when the workers have
  been created and no kill raises; it raises \<open>AttributeError\<close> when
  \<^verbatim>\<open>setup_actors\<close> has not created the workers, and the error of the first kill
  that raises, leaving the later workers and Ray as they are. The teardown of Dask
  shuts the client down and raises \<open>AttributeError\<close> when \<^verbatim>\<open>setup_actors\<close> has not
  created the client. \<^verbatim>\<open>solve\<close> calls the teardown once, after the loop: a run
  that returns has shut its runtime down, and a run that raises leaves a runtime
  that was up as it is.
\<close>

theorem cleanup_behaviour:
  fixes env :: "'sol collaborators"
  shows
   "(\<forall>self :: 'sol manager. backend self = Casadi \<longrightarrow> cleanup env self = Inr self)
    \<and> (\<forall>(self :: 'sol manager) as.
          backend self = Ray \<and> actors self = Some as
          \<and> (\<forall>i<length as. ray_kill env i = None) \<longrightarrow>
          cleanup env self
          = Inr (self\<lparr>logged := logged self @ [Notice ''Shutting down Ray''],
                      runtime_up := False\<rparr>))
    \<and> (\<forall>(self :: 'sol manager) as i e.
          backend self = Ray \<and> actors self = Some as \<and> i < length as
          \<and> ray_kill env i = Some e \<and> (\<forall>j<i. ray_kill env j = None) \<longrightarrow>
          cleanup env self = Inl (e, self))
    \<and> (\<forall>self :: 'sol manager.
          backend self = Ray \<and> actors self = None \<longrightarrow>
          cleanup env self = Inl (AttributeError, self))
    \<and> (\<forall>self :: 'sol manager.
          backend self = Dask \<longrightarrow>
          cleanup env self
          = (case client self of
               None \<Rightarrow>
                 Inl (AttributeError,
                      self\<lparr>logged := logged self @ [Notice ''Shutting down Dask client'']\<rparr>)
             | Some c \<Rightarrow>
                 Inr (self\<lparr>logged := logged self @ [Notice ''Shutting down Dask client''],
                           runtime_up := False\<rparr>)))
    \<and> (\<forall>(self :: 'sol manager) args out self'.
          solve env self args = Inr (out, self') \<and> backend self \<noteq> Casadi \<longrightarrow>
          \<not> runtime_up self')
    \<and> (\<forall>(self :: 'sol manager) args e self'.
          solve env self args = Inl (e, self') \<and> runtime_up self \<longrightarrow> runtime_up self')"
proof (intro conjI allI impI)
  fix self :: "'sol manager"
  assume "backend self = Casadi"
  then show "cleanup env self = Inr self" by (simp add: cleanup_def)
next
  fix self :: "'sol manager" and as
  assume a: "backend self = Ray \<and> actors self = Some as
          \<and> (\<forall>i<length as. ray_kill env i = None)"
  then have "kill_each env [0..<length as] = None" by (intro kill_each_None) simp
  then show "cleanup env self
          = Inr (self\<lparr>logged := logged self @ [Notice ''Shutting down Ray''],
                      runtime_up := False\<rparr>)"
    using a by (simp add: cleanup_def)
next
  fix self :: "'sol manager" and as i e
  assume a: "backend self = Ray \<and> actors self = Some as \<and> i < length as
          \<and> ray_kill env i = Some e \<and> (\<forall>j<i. ray_kill env j = None)"
  then have upt: "[0..<length as] = [0..<i] @ i # [Suc i..<length as]"
    using upt_add_eq_append [of 0 i "length as - i"] by (simp add: upt_conv_Cons)
  have "kill_each env ([0..<i] @ i # [Suc i..<length as]) = Some e"
    using a by (intro kill_each_first) simp_all
  then show "cleanup env self = Inl (e, self)"
    using a upt by (simp add: cleanup_def)
next
  fix self :: "'sol manager"
  assume "backend self = Ray \<and> actors self = None"
  then show "cleanup env self = Inl (AttributeError, self)" by (simp add: cleanup_def)
next
  fix self :: "'sol manager"
  assume "backend self = Dask"
  then show "cleanup env self
          = (case client self of
               None \<Rightarrow>
                 Inl (AttributeError,
                      self\<lparr>logged := logged self @ [Notice ''Shutting down Dask client'']\<rparr>)
             | Some c \<Rightarrow>
                 Inr (self\<lparr>logged := logged self @ [Notice ''Shutting down Dask client''],
                           runtime_up := False\<rparr>))"
    by (simp add: cleanup_def Let_def split: option.splits)
next
  fix self :: "'sol manager" and args out self'
  assume "solve env self args = Inr (out, self') \<and> backend self \<noteq> Casadi"
  then show "\<not> runtime_up self'" using solve_released [of env self args out self'] by simp
next
  fix self :: "'sol manager" and args e self'
  assume "solve env self args = Inl (e, self') \<and> runtime_up self"
  then show "runtime_up self'" using solve_raises [of env self args e self'] by simp
qed

theorem cleanup_behaviour_witness:
  "cleanup demo_env ((manager_init Ray)\<lparr>actors := Some [new_actor, new_actor]\<rparr>)
     = Inr ((manager_init Ray)
              \<lparr>actors := Some [new_actor, new_actor],
               logged := logged (manager_init Ray :: (nat \<times> nat) manager)
                           @ [Notice ''Shutting down Ray''],
               runtime_up := False\<rparr>)
   \<and> cleanup (demo_env\<lparr>ray_kill := (\<lambda>i. if i = 1 then Some SolverError else None)\<rparr>)
       ((manager_init Ray)\<lparr>actors := Some [new_actor, new_actor]\<rparr>)
     = Inl (SolverError, (manager_init Ray)\<lparr>actors := Some [new_actor, new_actor]\<rparr>)
   \<and> (\<exists>out self'. solve demo_env (manager_init Ray) (demo_args\<lparr>arg_nproc := 2\<rparr>)
                      = Inr (out, self')
          \<and> \<not> runtime_up self')
   \<and> (\<exists>e self'. solve (demo_env\<lparr>step_fn := (\<lambda>s i. Inl SolverError)\<rparr>) (manager_init Ray)
                     (demo_args\<lparr>arg_nproc := 2\<rparr>) = Inl (e, self')
          \<and> runtime_up self')"
proof (intro conjI)
  let ?ray = "(manager_init Ray :: (nat \<times> nat) manager)\<lparr>actors := Some [new_actor, new_actor]\<rparr>"
  note T2 = cleanup_behaviour [of demo_env, THEN conjunct2, THEN conjunct1, rule_format]
  have "cleanup demo_env ?ray
          = Inr (?ray\<lparr>logged := logged ?ray @ [Notice ''Shutting down Ray''],
                      runtime_up := False\<rparr>)"
    by (rule T2 [of ?ray "[new_actor, new_actor]"]) (simp add: manager_init_def demo_env_def)
  then show "cleanup demo_env ?ray
     = Inr ((manager_init Ray)
              \<lparr>actors := Some [new_actor, new_actor],
               logged := logged (manager_init Ray :: (nat \<times> nat) manager)
                           @ [Notice ''Shutting down Ray''],
               runtime_up := False\<rparr>)"
    by simp
next
  let ?ray = "(manager_init Ray :: (nat \<times> nat) manager)\<lparr>actors := Some [new_actor, new_actor]\<rparr>"
  let ?env = "demo_env\<lparr>ray_kill := (\<lambda>i. if i = 1 then Some SolverError else None)\<rparr>"
  note T3 = cleanup_behaviour [of ?env, THEN conjunct2, THEN conjunct2, THEN conjunct1,
      rule_format]
  show "cleanup ?env ?ray = Inl (SolverError, ?ray)"
    by (rule T3 [of ?ray "[new_actor, new_actor]" 1 SolverError]) (simp add: manager_init_def)
next
  define r where "r = solve demo_env (manager_init Ray :: (nat \<times> nat) manager)
                        (demo_args\<lparr>arg_nproc := 2\<rparr>)"
  have "\<not> isl r" unfolding r_def by code_simp
  then have run: "solve demo_env (manager_init Ray) (demo_args\<lparr>arg_nproc := 2\<rparr>)
                  = Inr (fst (projr r), snd (projr r))"
    unfolding r_def by simp
  note T6 = cleanup_behaviour [of demo_env, THEN conjunct2, THEN conjunct2, THEN conjunct2,
      THEN conjunct2, THEN conjunct2, THEN conjunct1, rule_format]
  have b: "backend (manager_init Ray :: (nat \<times> nat) manager) \<noteq> Casadi"
    by (simp add: manager_init_def)
  have "\<not> runtime_up (snd (projr r))"
    by (rule T6 [of "manager_init Ray" "demo_args\<lparr>arg_nproc := 2\<rparr>" "fst (projr r)"])
      (rule conjI [OF run b])
  with run show "\<exists>out self'. solve demo_env (manager_init Ray) (demo_args\<lparr>arg_nproc := 2\<rparr>)
                      = Inr (out, self') \<and> \<not> runtime_up self'"
    by blast
next
  let ?env = "demo_env\<lparr>step_fn := (\<lambda>s i. Inl SolverError)\<rparr>"
  define r where "r = solve ?env (manager_init Ray :: (nat \<times> nat) manager)
                        (demo_args\<lparr>arg_nproc := 2\<rparr>)"
  have "isl r" unfolding r_def by code_simp
  then have run: "solve ?env (manager_init Ray) (demo_args\<lparr>arg_nproc := 2\<rparr>)
                  = Inl (fst (projl r), snd (projl r))"
    unfolding r_def by simp
  note T7 = cleanup_behaviour [of ?env, THEN conjunct2, THEN conjunct2, THEN conjunct2,
      THEN conjunct2, THEN conjunct2, THEN conjunct2, rule_format]
  have b: "runtime_up (manager_init Ray :: (nat \<times> nat) manager)"
    by (simp add: manager_init_def)
  have "runtime_up (snd (projl r))"
    by (rule T7 [of "manager_init Ray" "demo_args\<lparr>arg_nproc := 2\<rparr>" "fst (projl r)"])
      (rule conjI [OF run b])
  with run show "\<exists>e self'. solve ?env (manager_init Ray) (demo_args\<lparr>arg_nproc := 2\<rparr>)
                     = Inl (e, self') \<and> runtime_up self'"
    by blast
qed

theorem teardown_counterexample:
  "(case cleanup demo_env (manager_init Ray) of
      Inl (e, self') \<Rightarrow> e = AttributeError
    | Inr self' \<Rightarrow> False)
   \<and> (case cleanup demo_env (manager_init Dask) of
        Inl (e, self') \<Rightarrow> e = AttributeError
      | Inr self' \<Rightarrow> False)
   \<and> (case solve (demo_env\<lparr>ray_kill := (\<lambda>i. if i = 1 then Some SolverError else None)\<rparr>)
              (manager_init Ray) (demo_args\<lparr>arg_nproc := 2\<rparr>) of
        Inl (e, self') \<Rightarrow> e = SolverError \<and> runtime_up self'
      | Inr r \<Rightarrow> False)
   \<and> (case solve (demo_env\<lparr>step_fn := (\<lambda>s i. Inl SolverError)\<rparr>)
              (manager_init Dask) (demo_args\<lparr>arg_nproc := 2\<rparr>) of
        Inl (e, self') \<Rightarrow> e = SolverError \<and> runtime_up self' \<and> client self' = Some ()
      | Inr r \<Rightarrow> False)"
  by code_simp

end
